theory Spec2Isabelle
  imports Complex_Main
begin

section \<open>Bloomify beatmap generators\<close>

text \<open>
  A shallow embedding of the three generator scripts \<^verbatim>\<open>auto_gen_expert.py\<close>,
  \<^verbatim>\<open>auto_gen.py\<close> and \<^verbatim>\<open>auto_gen_Silly.py\<close>. The results of the audio library
  (beat times, onset times, the RMS curve, the map from a time to a frame index) are
  inputs of the model. Python floats are modelled as exact reals, Python integers as
  \<open>int\<close>, exceptions as the left summand of a sum type.
\<close>

subsection \<open>Python and numpy primitives\<close>

datatype error = IndexError | ValueError

text \<open>A note of the output: \<^verbatim>\<open>{"time": time_ms, "lane": lane}\<close>.\<close>

record note_event =
  time :: int
  lane :: int

text \<open>\<^verbatim>\<open>int(x)\<close> on a float truncates towards zero.\<close>

definition py_int :: "real \<Rightarrow> int" where
  "py_int x = (if 0 \<le> x then \<lfloor>x\<rfloor> else \<lceil>x\<rceil>)"

text \<open>\<^verbatim>\<open>range(n)\<close>: empty when \<open>n \<le> 0\<close>.\<close>

definition py_range :: "int \<Rightarrow> int list" where
  "py_range n = map int [0..<nat n]"

text \<open>
  \<^verbatim>\<open>a[k]\<close> on a one-dimensional numpy array: a negative index counts from the end,
  an index outside \<open>[-n, n)\<close> raises IndexError. \<open>np_take\<close> is \<^verbatim>\<open>a[ks]\<close> for an
  array of indices.
\<close>

definition np_index :: "real list \<Rightarrow> int \<Rightarrow> error + real" where
  "np_index a k =
     (let n = int (length a)
      in if 0 \<le> k \<and> k < n then Inr (a ! nat k)
         else if - n \<le> k \<and> k < 0 then Inr (a ! nat (n + k))
         else Inl IndexError)"

fun np_take :: "real list \<Rightarrow> int list \<Rightarrow> error + real list" where
  "np_take a [] = Inr []"
| "np_take a (k # ks) =
     (case np_index a k of
        Inl e \<Rightarrow> Inl e
      | Inr v \<Rightarrow> (case np_take a ks of Inl e \<Rightarrow> Inl e | Inr vs \<Rightarrow> Inr (v # vs)))"

text \<open>
  \<^verbatim>\<open>np.percentile(a, q)\<close> with numpy's default linear interpolation: the value at the
  virtual index \<open>q / 100 * (n - 1)\<close> of the sorted array, interpolated between its two
  neighbours. A \<open>q\<close> outside \<open>[0, 100]\<close> raises ValueError. On an empty array numpy
  returns nan; the generators never compare against it (the simple generators take
  the percentile only of a non-empty array, the expert generator reads no element of an
  empty curve), and the model returns \<open>0\<close> there.
\<close>

definition percentile_linear :: "real list \<Rightarrow> real \<Rightarrow> real" where
  "percentile_linear a q =
     (let s = sort a; n = length s; virtual_index = q / 100 * real (n - 1);
          lo = nat \<lfloor>virtual_index\<rfloor>; hi = min (lo + 1) (n - 1)
      in if n = 0 then 0
         else s ! lo + (virtual_index - real lo) * (s ! hi - s ! lo))"

definition np_percentile :: "real list \<Rightarrow> real \<Rightarrow> error + real" where
  "np_percentile a q =
     (if q < 0 \<or> 100 < q then Inl ValueError else Inr (percentile_linear a q))"

text \<open>
  The random source. \<open>draws\<close> and \<open>uniforms\<close> hold the raw outcome of every call in
  order and \<open>pos\<close> counts the calls made so far, so that every behaviour of Python's
  \<^verbatim>\<open>random\<close> module is the behaviour of some source. \<^verbatim>\<open>random.choice\<close> raises
  IndexError on an empty sequence.
\<close>

record rng =
  draws :: "nat \<Rightarrow> nat"
  uniforms :: "nat \<Rightarrow> real"
  pos :: nat

definition random_choice :: "rng \<Rightarrow> 'a list \<Rightarrow> error + ('a \<times> rng)" where
  "random_choice g xs =
     (if xs = [] then Inl IndexError
      else Inr (xs ! (draws g (pos g) mod length xs), g\<lparr>pos := pos g + 1\<rparr>))"

definition random_random :: "rng \<Rightarrow> real \<times> rng" where
  "random_random g = (uniforms g (pos g), g\<lparr>pos := pos g + 1\<rparr>)"

subsection \<open>Energy classification (auto\_gen\_expert.py, lines 43-52)\<close>

text \<open>
  One flag per beat time. \<open>time_to_frames\<close> is \<^verbatim>\<open>librosa.time_to_frames(t, sr=sr)\<close>.
\<close>

fun classify_beats :: "(real \<Rightarrow> int) \<Rightarrow> real list \<Rightarrow> real \<Rightarrow> real list \<Rightarrow> error + bool list" where
  "classify_beats time_to_frames rms energy_threshold [] = Inr []"
| "classify_beats time_to_frames rms energy_threshold (t # ts) =
     (let frame_index = time_to_frames t
      in if frame_index < int (length rms) then
           (case np_index rms frame_index of
              Inl e \<Rightarrow> Inl e
            | Inr v \<Rightarrow>
                (case classify_beats time_to_frames rms energy_threshold ts of
                   Inl e \<Rightarrow> Inl e
                 | Inr flags \<Rightarrow> Inr ((energy_threshold < v) # flags)))
         else
           (case classify_beats time_to_frames rms energy_threshold ts of
              Inl e \<Rightarrow> Inl e
            | Inr flags \<Rightarrow> Inr (False # flags)))"

subsection \<open>Stream sections (auto\_gen\_expert.py, lines 54-66)\<close>

text \<open>
  The \<^verbatim>\<open>for i, is_high in enumerate(is_beat_high_energy)\<close> loop. The state is the
  index \<open>i\<close>, \<open>current_stream_start\<close> (with the source's sentinel \<open>-1\<close>) and the
  list \<open>stream_sections\<close>.
\<close>

fun scan_beats :: "real \<Rightarrow> bool list \<Rightarrow> int \<Rightarrow> int \<Rightarrow> (int \<times> int) list
    \<Rightarrow> int \<times> (int \<times> int) list" where
  "scan_beats min_stream_duration_beats [] i current_stream_start stream_sections =
     (current_stream_start, stream_sections)"
| "scan_beats min_stream_duration_beats (is_high # rest) i current_stream_start stream_sections =
     (if is_high \<and> current_stream_start = -1 then
        scan_beats min_stream_duration_beats rest (i + 1) i stream_sections
      else if \<not> is_high \<and> current_stream_start \<noteq> -1 then
        scan_beats min_stream_duration_beats rest (i + 1) (-1)
          (if min_stream_duration_beats \<le> of_int (i - current_stream_start)
           then stream_sections @ [(current_stream_start, i)]
           else stream_sections)
      else scan_beats min_stream_duration_beats rest (i + 1) current_stream_start stream_sections)"

text \<open>
  The loop followed by the check for a stream that goes to the end of the song;
  \<open>len_beat_times\<close> is \<^verbatim>\<open>len(beat_times)\<close>.
\<close>

definition find_stream_sections :: "bool list \<Rightarrow> int \<Rightarrow> real \<Rightarrow> (int \<times> int) list" where
  "find_stream_sections is_beat_high_energy len_beat_times min_stream_duration_beats =
     (case scan_beats min_stream_duration_beats is_beat_high_energy 0 (-1) [] of
        (current_stream_start, stream_sections) \<Rightarrow>
          if current_stream_start \<noteq> -1
             \<and> min_stream_duration_beats \<le> of_int (len_beat_times - current_stream_start)
          then stream_sections @ [(current_stream_start, len_beat_times)]
          else stream_sections)"

subsection \<open>Note timestamps (auto\_gen\_expert.py, lines 72-103)\<close>

text \<open>
  The \<^verbatim>\<open>while current_beat < len(beat_times) - 1\<close> loop, with the two lists
  \<open>note_timestamps\<close> and \<open>beat_flags\<close> it appends to. The inner
  \<^verbatim>\<open>for i in range(stream_subdivision)\<close> appends one timestamp and one flag per \<open>i\<close>.
\<close>

function note_loop :: "real list \<Rightarrow> (int \<times> int) list \<Rightarrow> real list \<Rightarrow> int \<Rightarrow> nat
    \<Rightarrow> real list \<times> bool list \<Rightarrow> real list \<times> bool list" where
  "note_loop beat_times stream_sections onset_times stream_subdivision current_beat
       (note_timestamps, beat_flags) =
     (if int current_beat < int (length beat_times) - 1 then
        (let in_stream = list_ex (\<lambda>(sec_start, sec_end).
                 sec_start \<le> int current_beat \<and> int current_beat < sec_end) stream_sections;
             start_time = beat_times ! current_beat;
             end_time = beat_times ! (current_beat + 1)
         in if in_stream then
              note_loop beat_times stream_sections onset_times stream_subdivision
                (current_beat + 1)
                (note_timestamps
                   @ map (\<lambda>i. start_time + of_int i * (end_time - start_time)
                                  / of_int stream_subdivision)
                       (py_range stream_subdivision),
                 beat_flags @ map (\<lambda>i. i = 0) (py_range stream_subdivision))
            else
              (let onsets_in_beat = filter (\<lambda>t. start_time \<le> t \<and> t < end_time) onset_times
               in note_loop beat_times stream_sections onset_times stream_subdivision
                    (current_beat + 1)
                    (note_timestamps
                       @ [if onsets_in_beat \<noteq> [] then onsets_in_beat ! 0 else start_time],
                     beat_flags @ [True])))
      else (note_timestamps, beat_flags))"
  by pat_completeness auto
termination
  by (relation "measure (\<lambda>(beat_times, _, _, _, current_beat, _).
        length beat_times - current_beat)") auto

declare note_loop.simps [simp del]

text \<open>
  What one pass of the loop body appends for the beat interval \<open>b\<close>, as pairs of a
  timestamp and its flag; used to describe the result of the loop.
\<close>

definition interval_notes :: "real list \<Rightarrow> (int \<times> int) list \<Rightarrow> real list \<Rightarrow> int \<Rightarrow> nat
    \<Rightarrow> (real \<times> bool) list" where
  "interval_notes beat_times stream_sections onset_times stream_subdivision b =
     (if list_ex (\<lambda>(sec_start, sec_end). sec_start \<le> int b \<and> int b < sec_end) stream_sections
      then map (\<lambda>i. (beat_times ! b + of_int i * (beat_times ! (b + 1) - beat_times ! b)
                         / of_int stream_subdivision, i = 0))
             (py_range stream_subdivision)
      else [(case filter (\<lambda>t. beat_times ! b \<le> t \<and> t < beat_times ! (b + 1)) onset_times of
               [] \<Rightarrow> beat_times ! b | t # _ \<Rightarrow> t, True)])"

text \<open>
  Steps 1 to 3 of \<^verbatim>\<open>generate_stream_map\<close> (lines 43-103): the energy threshold, the
  flags, the stream sections, the timestamps and their downbeat flags.
\<close>

definition stream_timestamps :: "(real \<Rightarrow> int) \<Rightarrow> real list \<Rightarrow> real list \<Rightarrow> real list
    \<Rightarrow> int \<Rightarrow> real \<Rightarrow> error + (real list \<times> bool list)" where
  "stream_timestamps time_to_frames beat_times onset_times rms
       stream_subdivision min_stream_duration_beats =
     (case np_percentile rms 60 of
        Inl e \<Rightarrow> Inl e
      | Inr energy_threshold \<Rightarrow>
          (case classify_beats time_to_frames rms energy_threshold beat_times of
             Inl e \<Rightarrow> Inl e
           | Inr is_beat_high_energy \<Rightarrow>
               (let stream_sections = find_stream_sections is_beat_high_energy
                      (int (length beat_times)) min_stream_duration_beats
                in Inr (note_loop beat_times stream_sections onset_times stream_subdivision
                          0 ([], [])))))"

subsection \<open>Pattern-based note placement (auto\_gen\_expert.py, lines 107-132)\<close>

text \<open>\<^verbatim>\<open>list(patterns.values())\<close>: zig\_zag, staircase, in\_out, in insertion order.\<close>

definition patterns :: "int list list" where
  "patterns = [[0, 2, 1, 3, 2, 0, 3, 1], [0, 1, 2, 3, 2, 1, 0, 1], [0, 3, 1, 2, 1, 3, 0, 2]]"

text \<open>
  The \<^verbatim>\<open>for i, t_sec in enumerate(note_timestamps)\<close> loop. \<^verbatim>\<open>beat_flags[i]\<close> raises
  IndexError past the end of the list; \<^verbatim>\<open>random.random()\<close> is called only on a
  downbeat, \<^verbatim>\<open>random.choice\<close> only when a chord is added.
\<close>

fun place_notes :: "int \<Rightarrow> real \<Rightarrow> int list \<Rightarrow> bool list \<Rightarrow> real list \<Rightarrow> nat \<Rightarrow> nat \<Rightarrow> rng
    \<Rightarrow> note_event list \<Rightarrow> error + note_event list" where
  "place_notes lanes chord_chance current_pattern beat_flags [] i pattern_index g notes =
     Inr notes"
| "place_notes lanes chord_chance current_pattern beat_flags (t_sec # rest) i pattern_index g notes =
     (let time_ms = py_int (t_sec * 1000)
      in if \<not> i < length beat_flags then Inl IndexError
         else
           (let is_downbeat = beat_flags ! i;
                lane1 = current_pattern ! (pattern_index mod length current_pattern);
                notes1 = notes @ [\<lparr>time = time_ms, lane = lane1\<rparr>]
            in if is_downbeat then
                 (case random_random g of
                    (u, g1) \<Rightarrow>
                      if u < chord_chance then
                        (let possible_lanes = filter (\<lambda>l. l \<noteq> lane1) (py_range lanes)
                         in if possible_lanes \<noteq> [] then
                              (case random_choice g1 possible_lanes of
                                 Inl e \<Rightarrow> Inl e
                               | Inr (lane2, g2) \<Rightarrow>
                                   place_notes lanes chord_chance current_pattern beat_flags rest
                                     (i + 1) (pattern_index + 1) g2
                                     (notes1 @ [\<lparr>time = time_ms, lane = lane2\<rparr>]))
                            else
                              place_notes lanes chord_chance current_pattern beat_flags rest
                                (i + 1) (pattern_index + 1) g1 notes1)
                      else
                        place_notes lanes chord_chance current_pattern beat_flags rest
                          (i + 1) (pattern_index + 1) g1 notes1)
               else
                 place_notes lanes chord_chance current_pattern beat_flags rest
                   (i + 1) (pattern_index + 1) g notes1))"

text \<open>
  Step 4 (lines 107-132): one pattern is chosen, then the notes are placed.
\<close>

definition place_pattern_notes :: "int \<Rightarrow> real \<Rightarrow> bool list \<Rightarrow> real list \<Rightarrow> rng
    \<Rightarrow> error + note_event list" where
  "place_pattern_notes lanes chord_chance beat_flags note_timestamps g =
     (case random_choice g patterns of
        Inl e \<Rightarrow> Inl e
      | Inr (current_pattern, g1) \<Rightarrow>
          place_notes lanes chord_chance current_pattern beat_flags note_timestamps 0 0 g1 [])"

text \<open>
  \<^verbatim>\<open>generate_stream_map\<close>, from the results of the audio analysis to the \<open>notes\<close> of
  the beatmap.
\<close>

definition generate_stream_map :: "(real \<Rightarrow> int) \<Rightarrow> real list \<Rightarrow> real list \<Rightarrow> real list
    \<Rightarrow> int \<Rightarrow> int \<Rightarrow> real \<Rightarrow> real \<Rightarrow> rng \<Rightarrow> error + note_event list" where
  "generate_stream_map time_to_frames beat_times onset_times rms
       lanes stream_subdivision min_stream_duration_beats chord_chance g =
     (case stream_timestamps time_to_frames beat_times onset_times rms
             stream_subdivision min_stream_duration_beats of
        Inl e \<Rightarrow> Inl e
      | Inr (note_timestamps, beat_flags) \<Rightarrow>
          place_pattern_notes lanes chord_chance beat_flags note_timestamps g)"

text \<open>
  A note list built from primary notes and, for each, at most one chord note placed
  right after it at the same time; used to describe the output of the placement loop.
\<close>

fun with_chords :: "note_event list \<Rightarrow> int option list \<Rightarrow> note_event list" where
  "with_chords (p # ps) (c # cs) =
     p # (case c of None \<Rightarrow> [] | Some l \<Rightarrow> [\<lparr>time = time p, lane = l\<rparr>]) @ with_chords ps cs"
| "with_chords ps cs = []"

subsection \<open>The simple generators (auto\_gen.py, auto\_gen\_Silly.py)\<close>

text \<open>
  The difficulty filter (auto\_gen.py lines 54-64, auto\_gen\_Silly.py lines 61-70):
  the RMS energy at each onset frame, the threshold, the onsets kept.
\<close>

definition filter_onsets :: "(real \<Rightarrow> int) \<Rightarrow> real list \<Rightarrow> real list \<Rightarrow> real
    \<Rightarrow> error + real list" where
  "filter_onsets time_to_frames rms onset_times_sec difficulty =
     (let onset_frames = map time_to_frames onset_times_sec
      in case np_take rms onset_frames of
           Inl e \<Rightarrow> Inl e
         | Inr onset_strengths \<Rightarrow>
             (case np_percentile onset_strengths ((1 - difficulty) * 100) of
                Inl e \<Rightarrow> Inl e
              | Inr strength_threshold \<Rightarrow>
                  Inr (map fst (filter (\<lambda>(t, s). strength_threshold \<le> s)
                                  (zip onset_times_sec onset_strengths)))))"

text \<open>
  The lane loop shared by both simple generators (auto\_gen.py lines 72-87,
  auto\_gen\_Silly.py lines 78-93); \<open>last_lane\<close> starts at \<open>-1\<close>.
\<close>

fun assign_lanes :: "int \<Rightarrow> real list \<Rightarrow> int \<Rightarrow> rng \<Rightarrow> note_event list \<Rightarrow> error + note_event list" where
  "assign_lanes lanes [] last_lane g notes = Inr notes"
| "assign_lanes lanes (t_sec # rest) last_lane g notes =
     (let time_ms = py_int (t_sec * 1000);
          possible_lanes = py_range lanes;
          possible_lanes = (if last_lane \<in> set possible_lanes \<and> 1 < length possible_lanes
                            then remove1 last_lane possible_lanes else possible_lanes)
      in case random_choice g possible_lanes of
           Inl e \<Rightarrow> Inl e
         | Inr (chosen_lane, g1) \<Rightarrow>
             assign_lanes lanes rest chosen_lane g1
               (notes @ [\<lparr>time = time_ms, lane = chosen_lane\<rparr>]))"

definition generate_smart_beatmap :: "(real \<Rightarrow> int) \<Rightarrow> real list \<Rightarrow> real list \<Rightarrow> real \<Rightarrow> int
    \<Rightarrow> rng \<Rightarrow> error + note_event list" where
  "generate_smart_beatmap time_to_frames onset_times_sec rms difficulty lanes g =
     (case (if 0 < length onset_times_sec
            then filter_onsets time_to_frames rms onset_times_sec difficulty
            else Inr []) of
        Inl e \<Rightarrow> Inl e
      | Inr strong_onset_times_sec \<Rightarrow> assign_lanes lanes strong_onset_times_sec (-1) g [])"

text \<open>
  The \<open>config\<close> dictionary of \<^verbatim>\<open>generate_configurable_beatmap\<close>: a missing key reads
  as its default (\<open>1.0\<close>, \<open>4\<close>, \<open>'chaotic'\<close>).
\<close>

record config =
  cfg_difficulty :: "real option"
  cfg_lanes :: "int option"
  cfg_mode :: "string option"

definition generate_configurable_beatmap :: "(real \<Rightarrow> int) \<Rightarrow> real list \<Rightarrow> real list \<Rightarrow> config
    \<Rightarrow> rng \<Rightarrow> error + note_event list" where
  "generate_configurable_beatmap time_to_frames onset_times_sec rms cfg g =
     (let difficulty = (case cfg_difficulty cfg of None \<Rightarrow> 1 | Some d \<Rightarrow> d);
          lanes = (case cfg_lanes cfg of None \<Rightarrow> 4 | Some l \<Rightarrow> l);
          mode = (case cfg_mode cfg of None \<Rightarrow> ''chaotic'' | Some m \<Rightarrow> m)
      in case (if mode = ''smart'' \<and> 0 < length onset_times_sec
               then filter_onsets time_to_frames rms onset_times_sec difficulty
               else Inr onset_times_sec) of
           Inl e \<Rightarrow> Inl e
         | Inr notes_to_place \<Rightarrow> assign_lanes lanes notes_to_place (-1) g [])"

text \<open>
  The primary notes of the placement loop: one per timestamp, the one at position \<open>n\<close>
  (counted from \<open>p\<close>) on lane \<open>pat[n mod len(pat)]\<close>; and what the loop may add
  after a primary note: nothing, or a chord note on another lane of \<open>range(lanes)\<close>.
\<close>

definition primaries :: "int list \<Rightarrow> nat \<Rightarrow> real list \<Rightarrow> note_event list" where
  "primaries pat p ts = map (\<lambda>(n, t). \<lparr>time = py_int (t * 1000), lane = pat ! (n mod length pat)\<rparr>) (enumerate p ts)"

definition chord_ok :: "int \<Rightarrow> note_event \<Rightarrow> int option \<Rightarrow> bool" where
  "chord_ok lanes p c = (case c of None \<Rightarrow> True | Some l \<Rightarrow> l \<noteq> lane p \<and> 0 \<le> l \<and> l < lanes)"

text \<open>The notes of the simple generators: one per timestamp, on the chosen lanes.\<close>

definition lane_notes :: "real list \<Rightarrow> int list \<Rightarrow> note_event list" where
  "lane_notes ts ls = map (\<lambda>(t, l). \<lparr>time = py_int (t * 1000), lane = l\<rparr>) (zip ts ls)"

text \<open>
  The invariant on chords: two notes of the list with the same time are on different lanes.
\<close>

definition same_time_distinct_lanes :: "note_event list \<Rightarrow> bool" where
  "same_time_distinct_lanes ns =
     (\<forall>j < length ns. \<forall>i < j. time (ns ! i) = time (ns ! j) \<longrightarrow> lane (ns ! i) \<noteq> lane (ns ! j))"

text \<open>
  A note list in which no time value is carried by more than two notes.
\<close>

definition at_most_two_per_time :: "note_event list \<Rightarrow> bool" where
  "at_most_two_per_time ns =
     (\<forall>n \<in> set ns. length (filter (\<lambda>m. time m = time n) ns) \<le> 2)"

subsection \<open>Concrete inputs\<close>

text \<open>
  \<^verbatim>\<open>librosa.time_to_frames\<close> is \<open>floor(t * sr / hop_length)\<close>. Two random
  sources: \<open>rng_first\<close> always draws the first element and never adds a chord (for a
  chord chance below one half), \<open>rng_chords\<close> draws the pattern \<open>zig_zag\<close> and adds a
  chord whenever one is possible.
\<close>

definition librosa_time_to_frames :: "real \<Rightarrow> real \<Rightarrow> real \<Rightarrow> int" where
  "librosa_time_to_frames sr hop_length t = \<lfloor>t * sr / hop_length\<rfloor>"

definition rng_first :: rng where
  "rng_first = \<lparr>draws = (\<lambda>n. 0), uniforms = (\<lambda>n. 1 / 2), pos = 0\<rparr>"

definition rng_chords :: rng where
  "rng_chords = \<lparr>draws = (\<lambda>n. n), uniforms = (\<lambda>n. 0), pos = 0\<rparr>"

section \<open>Properties\<close>

subsection \<open>Stream section detector\<close>

lemma scan_beats_low_closed:
  "scan_beats D (replicate n False @ rest) i (-1) secs
     = scan_beats D rest (i + int n) (-1) secs"
  by (induction n arbitrary: i) (simp_all add: algebra_simps)

lemma scan_beats_high_open:
  "c \<noteq> -1 \<Longrightarrow> scan_beats D (replicate n True @ rest) i c secs
     = scan_beats D rest (i + int n) c secs"
  by (induction n arbitrary: i) (simp_all add: algebra_simps)

lemma scan_beats_high_closed:
  "0 \<le> i \<Longrightarrow> scan_beats D (replicate (Suc n) True @ rest) i (-1) secs
     = scan_beats D rest (i + 1 + int n) i secs"
  using scan_beats_high_open [of i D n rest "i + 1" secs] by simp

text \<open>
  Claim C1. A flag sequence with a single run of \<open>L \<ge> 1\<close> high-energy beats starting
  at index \<open>i\<close> (followed by \<open>k\<close> low beats, \<open>k = 0\<close> being the run still open at the end
  of the sequence) yields exactly the section \<open>(i, i + L)\<close> when \<open>L \<ge> D\<close>, the bound
  included, and no section when \<open>L < D\<close>.
\<close>

theorem single_run_section:
  assumes "0 < L"
  shows "find_stream_sections (replicate i False @ replicate L True @ replicate k False)
           (int (i + L + k)) D
         = (if D \<le> real L then [(int i, int (i + L))] else [])"
proof -
  obtain m where L: "L = Suc m"
    using assms by (cases L) auto
  have "scan_beats D (replicate i False @ replicate L True @ replicate k False) 0 (-1) []
          = scan_beats D (replicate (Suc m) True @ replicate k False) (0 + int i) (-1) []"
    unfolding L by (rule scan_beats_low_closed)
  also have "\<dots> = scan_beats D (replicate k False) (0 + int i + 1 + int m) (0 + int i) []"
    by (rule scan_beats_high_closed) simp
  finally have run:
    "scan_beats D (replicate i False @ replicate L True @ replicate k False) 0 (-1) []
       = scan_beats D (replicate k False) (int i + 1 + int m) (int i) []"
    by simp
  show ?thesis
  proof (cases k)
    case 0
    with run show ?thesis
      by (simp add: find_stream_sections_def L)
  next
    case (Suc j)
    have "scan_beats D (replicate k False) (int i + 1 + int m) (int i) []
            = scan_beats D (replicate j False @ []) (int i + 1 + int m + 1) (-1)
                (if D \<le> real L then [(int i, int (i + L))] else [])"
      unfolding Suc L by (simp add: algebra_simps)
    also have "\<dots> = (-1, if D \<le> real L then [(int i, int (i + L))] else [])"
      by (simp only: scan_beats_low_closed scan_beats.simps)
    finally show ?thesis
      using run by (simp add: find_stream_sections_def)
  qed
qed

theorem single_run_section_witness:
  "find_stream_sections [False, True, True, True, True, False] 6 4 = [(1, 5)]
   \<and> find_stream_sections [False, True, True, True, True] 5 4 = [(1, 5)]
   \<and> find_stream_sections [False, True, True, True, False] 5 4 = []"
  using single_run_section [of 4 1 1 4] single_run_section [of 4 1 0 4]
    single_run_section [of 3 1 1 4]
  by (simp add: numeral_eq_Suc)

subsection \<open>Note timestamp generator\<close>

lemma note_loop_done:
  "\<not> cb < length bt - 1 \<Longrightarrow> note_loop bt ss ot S cb (ts, fl) = (ts, fl)"
  by (subst note_loop.simps) (simp add: less_diff_conv)

lemma note_loop_step:
  assumes "cb < length bt - 1"
  shows "note_loop bt ss ot S cb (ts, fl)
           = note_loop bt ss ot S (Suc cb)
               (ts @ map fst (interval_notes bt ss ot S cb),
                fl @ map snd (interval_notes bt ss ot S cb))"
proof -
  have "int cb < int (length bt) - 1"
    using assms by linarith
  then show ?thesis
    by (subst note_loop.simps)
      (simp add: interval_notes_def Let_def comp_def neq_Nil_conv split: list.splits)
qed

lemma note_loop_concat_from:
  "n = length bt - 1 \<Longrightarrow> note_loop bt ss ot S cb (ts, fl)
     = (ts @ map fst (concat (map (interval_notes bt ss ot S) [cb..<n])),
        fl @ map snd (concat (map (interval_notes bt ss ot S) [cb..<n])))"
proof (induction "n - cb" arbitrary: cb ts fl)
  case 0
  then have "\<not> cb < length bt - 1"
    by simp
  with 0 show ?case
    by (simp add: note_loop_done)
next
  case (Suc m)
  then have lt: "cb < n" and m: "m = n - Suc cb"
    by linarith+
  have "cb < length bt - 1"
    using lt Suc.prems by simp
  then have "note_loop bt ss ot S cb (ts, fl)
           = note_loop bt ss ot S (Suc cb)
               (ts @ map fst (interval_notes bt ss ot S cb),
                fl @ map snd (interval_notes bt ss ot S cb))"
    by (rule note_loop_step)
  also have "\<dots> = ((ts @ map fst (interval_notes bt ss ot S cb))
                      @ map fst (concat (map (interval_notes bt ss ot S) [Suc cb..<n])),
                    (fl @ map snd (interval_notes bt ss ot S cb))
                      @ map snd (concat (map (interval_notes bt ss ot S) [Suc cb..<n])))"
    using m Suc.prems by (rule Suc.hyps(1))
  finally show ?case
    by (simp add: upt_conv_Cons [OF lt])
qed

lemmas note_loop_concat = note_loop_concat_from [OF refl]

lemma sorted_filter_first:
  assumes "sorted xs" and "filter P xs = y # ys"
  shows "y = Min (set (filter P xs))"
proof -
  have "sorted (y # ys)"
    using assms sorted_filter [of "\<lambda>x. x" xs P] by simp
  then have "\<forall>z \<in> set ys. y \<le> z"
    by simp
  then show ?thesis
    unfolding assms(2) by (intro Min_eqI [symmetric]) auto
qed

text \<open>
  Claim C2. The loop visits the beat intervals \<open>0, 1, \<dots>, len(beat_times) - 2\<close> in
  this order. For an interval whose index lies in some stream section it emits the
  \<open>S\<close> timestamps \<open>start + k * (end - start) / S\<close>, \<open>k = 0, \<dots>, S - 1\<close>, flagged as
  downbeat exactly at \<open>k = 0\<close>; for any other interval it emits one timestamp, flagged
  as downbeat: the earliest onset \<open>t\<close> with \<open>start \<le> t < end\<close>, or \<open>start\<close> when there
  is none. The onset times are sorted, as the audio analysis returns them.
\<close>

theorem note_timestamps_per_interval:
  assumes "sorted onset_times"
  shows "case note_loop beat_times stream_sections onset_times S 0 ([], []) of
           (note_timestamps, beat_flags) \<Rightarrow>
             length note_timestamps = length beat_flags
             \<and> zip note_timestamps beat_flags
               = concat (map (\<lambda>b.
                   if \<exists>(sec_start, sec_end) \<in> set stream_sections.
                        sec_start \<le> int b \<and> int b < sec_end
                   then map (\<lambda>k. (beat_times ! b
                                    + real k * (beat_times ! (b + 1) - beat_times ! b) / of_int S,
                                  k = 0)) [0..<nat S]
                   else [(if filter (\<lambda>t. beat_times ! b \<le> t \<and> t < beat_times ! (b + 1))
                               onset_times = []
                          then beat_times ! b
                          else Min (set (filter (\<lambda>t. beat_times ! b \<le> t
                                           \<and> t < beat_times ! (b + 1)) onset_times)),
                          True)])
                 [0..<length beat_times - 1])"
proof -
  have "interval_notes beat_times stream_sections onset_times S = (\<lambda>b.
                   if \<exists>(sec_start, sec_end) \<in> set stream_sections.
                        sec_start \<le> int b \<and> int b < sec_end
                   then map (\<lambda>k. (beat_times ! b
                                    + real k * (beat_times ! (b + 1) - beat_times ! b) / of_int S,
                                  k = 0)) [0..<nat S]
                   else [(if filter (\<lambda>t. beat_times ! b \<le> t \<and> t < beat_times ! (b + 1))
                               onset_times = []
                          then beat_times ! b
                          else Min (set (filter (\<lambda>t. beat_times ! b \<le> t
                                           \<and> t < beat_times ! (b + 1)) onset_times)),
                          True)])"
  proof (rule ext)
    fix b
    show "interval_notes beat_times stream_sections onset_times S b =
                  (if \<exists>(sec_start, sec_end) \<in> set stream_sections.
                        sec_start \<le> int b \<and> int b < sec_end
                   then map (\<lambda>k. (beat_times ! b
                                    + real k * (beat_times ! (b + 1) - beat_times ! b) / of_int S,
                                  k = 0)) [0..<nat S]
                   else [(if filter (\<lambda>t. beat_times ! b \<le> t \<and> t < beat_times ! (b + 1))
                               onset_times = []
                          then beat_times ! b
                          else Min (set (filter (\<lambda>t. beat_times ! b \<le> t
                                           \<and> t < beat_times ! (b + 1)) onset_times)),
                          True)])"
    proof (cases "filter (\<lambda>t. beat_times ! b \<le> t \<and> t < beat_times ! (b + 1)) onset_times")
      case Nil
      then show ?thesis
        by (simp add: interval_notes_def list_ex_iff py_range_def comp_def)
    next
      case (Cons y ys)
      have "y = Min (set (filter (\<lambda>t. beat_times ! b \<le> t \<and> t < beat_times ! (b + 1)) onset_times))"
        using assms Cons by (rule sorted_filter_first)
      then show ?thesis
        by (simp only: interval_notes_def list_ex_iff py_range_def Cons)
          (simp add: comp_def)
    qed
  qed
  then show ?thesis
    by (simp add: note_loop_concat zip_map_fst_snd)
qed

theorem note_timestamps_per_interval_witness:
  "sorted [3/5, 7/10 :: real]
   \<and> note_loop [0, 1/2, 1] [(0, 1)] [3/5, 7/10] 2 0 ([], [])
     = ([0, 1/4, 3/5], [True, False, True])"
  using note_timestamps_per_interval [where onset_times = "[3/5, 7/10]"
      and beat_times = "[0, 1/2, 1]" and stream_sections = "[(0, 1)]" and S = 2]
  by (auto simp: upt_rec zip_eq_conv split: prod.splits)

subsection \<open>Evaluation at concrete inputs\<close>

lemma py_range_numeral [simp]: "py_range (numeral k) = map int [0..<numeral k]"
  by (simp add: py_range_def)

lemma example_stream_timestamps:
  "stream_timestamps (librosa_time_to_frames 2 1) [0, 1/2, 1, 3/2] [6/5] [1, 1, 0, 0] 2 2
     = Inr ([0, 1/4, 1/2, 3/4, 6/5], [True, False, True, False, True])"
  by (simp add: stream_timestamps_def np_percentile_def percentile_linear_def
      librosa_time_to_frames_def np_index_def find_stream_sections_def note_loop_concat
      interval_notes_def upt_rec Let_def)

lemma example_stream_map:
  "generate_stream_map (librosa_time_to_frames 2 1) [0, 1/2, 1, 3/2] [6/5] [1, 1, 0, 0]
       4 2 2 (1/4) rng_chords
     = Inr [\<lparr>time = 0, lane = 0\<rparr>, \<lparr>time = 0, lane = 3\<rparr>, \<lparr>time = 250, lane = 2\<rparr>,
            \<lparr>time = 500, lane = 1\<rparr>, \<lparr>time = 500, lane = 2\<rparr>, \<lparr>time = 750, lane = 3\<rparr>,
            \<lparr>time = 1200, lane = 2\<rparr>, \<lparr>time = 1200, lane = 0\<rparr>]"
  by (simp add: generate_stream_map_def example_stream_timestamps place_pattern_notes_def
      random_choice_def random_random_def rng_chords_def patterns_def py_int_def upt_rec Let_def)

lemma example_smart_beatmap:
  "generate_smart_beatmap (librosa_time_to_frames 1 1) [1/2, 3/2, 5/2] [1, 3, 2] (1/2) 4 rng_first
     = Inr [\<lparr>time = 1500, lane = 0\<rparr>, \<lparr>time = 2500, lane = 1\<rparr>]"
  by (simp add: generate_smart_beatmap_def filter_onsets_def np_index_def np_percentile_def
      percentile_linear_def librosa_time_to_frames_def rng_first_def random_choice_def
      py_int_def upt_rec Let_def)

lemma example_configurable_smart:
  "generate_configurable_beatmap (librosa_time_to_frames 1 1) [1/2, 3/2, 5/2] [1, 3, 2]
       \<lparr>cfg_difficulty = Some (1/2), cfg_lanes = Some 4, cfg_mode = Some ''smart''\<rparr> rng_first
     = Inr [\<lparr>time = 1500, lane = 0\<rparr>, \<lparr>time = 2500, lane = 1\<rparr>]"
  by (simp add: generate_configurable_beatmap_def filter_onsets_def np_index_def np_percentile_def
      percentile_linear_def librosa_time_to_frames_def rng_first_def random_choice_def
      py_int_def upt_rec Let_def)

lemma example_configurable_chaotic:
  "generate_configurable_beatmap (librosa_time_to_frames 1 1) [1/2, 3/2, 5/2] [1, 3, 2]
       \<lparr>cfg_difficulty = None, cfg_lanes = None, cfg_mode = None\<rparr> rng_first
     = Inr [\<lparr>time = 500, lane = 0\<rparr>, \<lparr>time = 1500, lane = 1\<rparr>, \<lparr>time = 2500, lane = 0\<rparr>]"
  by (simp add: generate_configurable_beatmap_def rng_first_def random_choice_def
      py_int_def upt_rec Let_def)

subsection \<open>Basic facts and the placement loop\<close>

lemma py_range_set: "set (py_range n) = {0..<n}"
  unfolding py_range_def
proof (intro set_eqI iffI)
  fix x assume "x \<in> set (map int [0..<nat n])"
  then show "x \<in> {0..<n}" by auto
next
  fix x assume "x \<in> {0..<n}"
  then have "x = int (nat x)" "nat x < nat n" by auto
  then show "x \<in> set (map int [0..<nat n])"
    by (metis atLeastLessThan_iff atLeastLessThan_upt image_eqI le0 set_map)
qed

lemma random_choice_mem:
  "random_choice g xs = Inr (x, g') \<Longrightarrow> x \<in> set xs"
  by (auto simp: random_choice_def split: if_splits)

lemma place_notes_shape:
  assumes "place_notes lanes cc pat fl ts i p g acc = Inr out"
  shows "\<exists>cs. list_all2 (chord_ok lanes) (primaries pat p ts) cs
              \<and> out = acc @ with_chords (primaries pat p ts) cs"
  using assms
proof (induction ts arbitrary: i p g acc)
  case Nil
  then show ?case by (simp add: primaries_def)
next
  case (Cons t ts)
  let ?p = "\<lparr>time = py_int (t * 1000), lane = pat ! (p mod length pat)\<rparr>"
  have prim: "primaries pat p (t # ts) = ?p # primaries pat (Suc p) ts"
    by (simp add: primaries_def)
  from Cons.prems obtain c g' where
    ok: "chord_ok lanes ?p c" and
    rest: "place_notes lanes cc pat fl ts (Suc i) (Suc p) g'
             (acc @ ?p # (case c of None \<Rightarrow> [] | Some l \<Rightarrow> [\<lparr>time = time ?p, lane = l\<rparr>])) = Inr out"
  proof (cases "fl ! i \<and> fst (random_random g) < cc
       \<and> filter (\<lambda>l. l \<noteq> lane ?p) (py_range lanes) \<noteq> []")
    case True
    with Cons.prems obtain l g2 where
      ch: "random_choice (snd (random_random g)) (filter (\<lambda>l. l \<noteq> lane ?p) (py_range lanes)) = Inr (l, g2)"
      and r: "place_notes lanes cc pat fl ts (Suc i) (Suc p) g2
             (acc @ [?p, \<lparr>time = time ?p, lane = l\<rparr>]) = Inr out"
      by (auto simp: Let_def split: if_splits prod.splits sum.splits)
    from random_choice_mem [OF ch] have "chord_ok lanes ?p (Some l)"
      by (simp add: chord_ok_def py_range_set)
    with r show ?thesis
      by (intro that [of "Some l" g2]) simp_all
  next
    case False
    with Cons.prems obtain g' where
      "place_notes lanes cc pat fl ts (Suc i) (Suc p) g' (acc @ [?p]) = Inr out"
      by (auto simp: Let_def split: if_splits prod.splits sum.splits)
    then show ?thesis
      by (intro that [of None g']) (simp_all add: chord_ok_def)
  qed
  from Cons.IH [OF rest] obtain cs where
    "list_all2 (chord_ok lanes) (primaries pat (Suc p) ts) cs"
    "out = (acc @ ?p # (case c of None \<Rightarrow> [] | Some l \<Rightarrow> [\<lparr>time = time ?p, lane = l\<rparr>]))
             @ with_chords (primaries pat (Suc p) ts) cs"
    by blast
  with ok show ?case
    unfolding prim by (intro exI [of _ "c # cs"]) simp
qed

lemma py_int_mono: "x \<le> y \<Longrightarrow> py_int x \<le> py_int y"
proof -
  assume le: "x \<le> y"
  have "\<lfloor>x\<rfloor> \<le> \<lceil>x\<rceil>"
    by (rule floor_le_ceiling)
  moreover have "\<lceil>x\<rceil> \<le> \<lfloor>y\<rfloor>" if "x < 0" "0 \<le> y"
  proof -
    have "\<lceil>x\<rceil> \<le> 0" using that by (simp add: ceiling_le_iff)
    moreover have "0 \<le> \<lfloor>y\<rfloor>" using that by simp
    ultimately show ?thesis by linarith
  qed
  ultimately show ?thesis
    using le floor_mono [OF le] ceiling_mono [OF le] by (auto simp: py_int_def)
qed

lemma sorted_to_ms: "sorted ts \<Longrightarrow> sorted (map (\<lambda>t. py_int (t * 1000)) ts)"
  by (rule sorted_map_mono) (auto simp: mono_on_def intro!: py_int_mono)

lemma time_primaries: "map time (primaries pat p ts) = map (\<lambda>t. py_int (t * 1000)) ts"
  by (induction ts arbitrary: p) (simp_all add: primaries_def)

lemma set_time_with_chords:
  "set (map time (with_chords ps cs)) \<subseteq> set (map time ps)"
  by (induction ps cs rule: with_chords.induct) (auto split: option.splits)

lemma sorted_time_with_chords:
  "sorted (map time ps) \<Longrightarrow> sorted (map time (with_chords ps cs))"
proof (induction ps cs rule: with_chords.induct)
  case (1 p ps c cs)
  then have "\<forall>x \<in> set (map time (with_chords ps cs)). time p \<le> x"
    using set_time_with_chords [of ps cs] by auto
  with 1 show ?case
    by (auto split: option.splits)
qed simp_all

lemma interval_notes_sorted:
  assumes "bt ! b \<le> bt ! Suc b"
  shows "sorted (map fst (interval_notes bt ss ot S b))"
proof (cases "list_ex (\<lambda>(sec_start, sec_end). sec_start \<le> int b \<and> int b < sec_end) ss")
  case True
  have "(bt ! b + real i * (bt ! Suc b - bt ! b) / real_of_int S)
        \<le> (bt ! b + real j * (bt ! Suc b - bt ! b) / real_of_int S)"
    if "i < j" "j < nat S" for i j
  proof -
    have "0 < real_of_int S" using that by simp
    moreover have "real i * (bt ! Suc b - bt ! b) \<le> real j * (bt ! Suc b - bt ! b)"
      using that assms by (intro mult_right_mono) simp_all
    ultimately show ?thesis
      by (simp add: divide_right_mono)
  qed
  then have "sorted_wrt (\<lambda>i j. (bt ! b + real i * (bt ! Suc b - bt ! b) / real_of_int S)
        \<le> (bt ! b + real j * (bt ! Suc b - bt ! b) / real_of_int S)) [0..<nat S]"
    by (simp add: sorted_wrt_iff_nth_less)
  with True show ?thesis
    by (simp add: interval_notes_def py_range_def comp_def sorted_map)
next
  case False
  then show ?thesis
    by (simp add: interval_notes_def)
qed

lemma interval_notes_bounds:
  assumes "bt ! b \<le> bt ! Suc b" and "x \<in> set (map fst (interval_notes bt ss ot S b))"
  shows "bt ! b \<le> x \<and> x \<le> bt ! Suc b"
proof (cases "list_ex (\<lambda>(sec_start, sec_end). sec_start \<le> int b \<and> int b < sec_end) ss")
  case True
  with assms(2) obtain i where i: "i < nat S"
    and x: "x = bt ! b + real i * (bt ! Suc b - bt ! b) / real_of_int S"
    by (auto simp: interval_notes_def py_range_def)
  have S: "0 < real_of_int S" using i by simp
  have "real i * (bt ! Suc b - bt ! b) \<le> real_of_int S * (bt ! Suc b - bt ! b)"
    using i assms(1) by (intro mult_right_mono) simp_all
  then have "real i * (bt ! Suc b - bt ! b) / real_of_int S \<le> bt ! Suc b - bt ! b"
    using S by (simp add: divide_le_eq mult.commute)
  moreover have "0 \<le> real i * (bt ! Suc b - bt ! b) / real_of_int S"
    using S assms(1) by simp
  ultimately show ?thesis
    unfolding x by linarith
next
  case False
  show ?thesis
  proof (cases "filter (\<lambda>t. bt ! b \<le> t \<and> t < bt ! (b + 1)) ot")
    case Nil
    with False assms show ?thesis
      by (simp add: interval_notes_def)
  next
    case (Cons y ys)
    then have "y \<in> set (filter (\<lambda>t. bt ! b \<le> t \<and> t < bt ! (b + 1)) ot)"
      by simp
    then have "bt ! b \<le> y \<and> y < bt ! Suc b"
      by simp
    with False assms Cons show ?thesis
      by (simp add: interval_notes_def)
  qed
qed

lemma sorted_concat_intervals:
  assumes "sorted bt" and "n < length bt"
  shows "sorted (map fst (concat (map (interval_notes bt ss ot S) [0..<n])))
         \<and> (\<forall>x \<in> set (map fst (concat (map (interval_notes bt ss ot S) [0..<n]))). x \<le> bt ! n)"
  using assms(2)
proof (induction n)
  case 0
  then show ?case by simp
next
  case (Suc n)
  then have IH: "sorted (map fst (concat (map (interval_notes bt ss ot S) [0..<n])))"
    "\<forall>x \<in> set (map fst (concat (map (interval_notes bt ss ot S) [0..<n]))). x \<le> bt ! n"
    by simp_all
  have le: "bt ! n \<le> bt ! Suc n"
    using assms(1) Suc.prems by (simp add: sorted_iff_nth_mono)
  note b = interval_notes_bounds [OF le, of _ ss ot S]
  have "\<forall>x \<in> set (map fst (concat (map (interval_notes bt ss ot S) [0..<n]))).
        \<forall>y \<in> set (map fst (interval_notes bt ss ot S n)). x \<le> y"
    using IH(2) b by fastforce
  moreover have "\<forall>x \<in> set (map fst (concat (map (interval_notes bt ss ot S) [0..<n]))).
        x \<le> bt ! Suc n"
    using IH(2) le by fastforce
  ultimately show ?case
    using IH(1) interval_notes_sorted [OF le, of ss ot S] b
    by (simp add: sorted_append) blast
qed

lemma note_loop_sorted:
  assumes "sorted bt"
  shows "sorted (fst (note_loop bt ss ot S 0 ([], [])))"
proof (cases "bt = []")
  case True
  then show ?thesis
    by (simp add: note_loop_concat)
next
  case False
  then have "length bt - 1 < length bt"
    by simp
  from sorted_concat_intervals [OF assms this] show ?thesis
    by (simp add: note_loop_concat)
qed

lemma note_loop_lengths:
  "length (fst (note_loop bt ss ot S 0 ([], []))) = length (snd (note_loop bt ss ot S 0 ([], [])))"
  by (simp add: note_loop_concat)

lemma stream_timestamps_sorted:
  assumes "sorted bt" and "stream_timestamps ttf bt ot rms S D = Inr (ts, fl)"
  shows "sorted ts" and "length ts = length fl"
proof -
  from assms(2) obtain ss where "note_loop bt ss ot S 0 ([], []) = (ts, fl)"
    by (auto simp: stream_timestamps_def Let_def split: sum.splits)
  then show "sorted ts" and "length ts = length fl"
    using note_loop_sorted [OF assms(1), of ss ot S] note_loop_lengths [of bt ss ot S]
    by simp_all
qed

lemma place_pattern_notes_shape:
  assumes "place_pattern_notes lanes cc fl ts g = Inr out"
  shows "\<exists>cs. list_all2 (chord_ok lanes) (primaries (patterns ! (draws g (pos g) mod 3)) 0 ts) cs
              \<and> out = with_chords (primaries (patterns ! (draws g (pos g) mod 3)) 0 ts) cs"
proof -
  from assms obtain g1 where
    "place_notes lanes cc (patterns ! (draws g (pos g) mod 3)) fl ts 0 0 g1 [] = Inr out"
    by (auto simp: place_pattern_notes_def random_choice_def patterns_def split: if_splits)
  from place_notes_shape [OF this] show ?thesis
    by simp
qed

lemma generate_stream_map_sorted:
  assumes "sorted bt" and "generate_stream_map ttf bt ot rms lanes S D cc g = Inr out"
  shows "sorted (map time out)"
proof -
  from assms(2) obtain ts fl where st: "stream_timestamps ttf bt ot rms S D = Inr (ts, fl)"
    and pl: "place_pattern_notes lanes cc fl ts g = Inr out"
    by (auto simp: generate_stream_map_def split: sum.splits)
  from place_pattern_notes_shape [OF pl] obtain cs where
    out: "out = with_chords (primaries (patterns ! (draws g (pos g) mod 3)) 0 ts) cs"
    by blast
  have "sorted (map (\<lambda>t. py_int (t * 1000)) ts)"
    using stream_timestamps_sorted(1) [OF assms(1) st] by (rule sorted_to_ms)
  then show ?thesis
    unfolding out by (intro sorted_time_with_chords) (simp add: time_primaries)
qed

lemma py_range_distinct: "distinct (py_range n)"
  by (simp add: py_range_def distinct_map)

lemma py_range_length: "length (py_range n) = nat n"
  by (simp add: py_range_def)

lemma assign_lanes_shape:
  assumes "assign_lanes lanes ts last_lane g acc = Inr out"
  shows "\<exists>ls. length ls = length ts \<and> out = acc @ lane_notes ts ls
              \<and> set ls \<subseteq> {0..<lanes} \<and> (2 \<le> lanes \<longrightarrow> distinct_adj (last_lane # ls))"
  using assms
proof (induction ts arbitrary: last_lane g acc)
  case Nil
  then show ?case by (simp add: lane_notes_def)
next
  case (Cons t ts)
  define possible where "possible =
    (if last_lane \<in> set (py_range lanes) \<and> 1 < length (py_range lanes)
     then remove1 last_lane (py_range lanes) else py_range lanes)"
  from Cons.prems obtain chosen g1 where
    ch: "random_choice g possible = Inr (chosen, g1)" and
    rest: "assign_lanes lanes ts chosen g1
             (acc @ [\<lparr>time = py_int (t * 1000), lane = chosen\<rparr>]) = Inr out"
    by (auto simp: Let_def possible_def split: sum.splits)
  have mem: "chosen \<in> set possible"
    using ch by (rule random_choice_mem)
  then have range: "chosen \<in> {0..<lanes}"
    using py_range_set [of lanes] by (auto simp: possible_def py_range_distinct split: if_splits)
  have neq: "chosen \<noteq> last_lane" if "2 \<le> lanes"
    using that mem by (auto simp: possible_def py_range_distinct py_range_length split: if_splits)
  from Cons.IH [OF rest] obtain ls where ls: "length ls = length ts"
    "out = (acc @ [\<lparr>time = py_int (t * 1000), lane = chosen\<rparr>]) @ lane_notes ts ls"
    "set ls \<subseteq> {0..<lanes}" "2 \<le> lanes \<longrightarrow> distinct_adj (chosen # ls)"
    by blast
  show ?case
    using ls range neq by (intro exI [of _ "chosen # ls"]) (auto simp: lane_notes_def)
qed

lemma assign_lanes_succeeds:
  assumes "1 \<le> lanes"
  shows "\<exists>out. assign_lanes lanes ts last_lane g acc = Inr out"
proof (induction ts arbitrary: last_lane g acc)
  case Nil
  then show ?case by simp
next
  case (Cons t ts)
  define possible where "possible =
    (if last_lane \<in> set (py_range lanes) \<and> 1 < length (py_range lanes)
     then remove1 last_lane (py_range lanes) else py_range lanes)"
  have "0 < length (py_range lanes)"
    using assms by (simp add: py_range_length)
  moreover have "0 < length (remove1 last_lane (py_range lanes))"
    if "1 < length (py_range lanes)"
    using that by (auto simp: length_remove1)
  ultimately have "0 < length possible"
    unfolding possible_def by presburger
  then have "possible \<noteq> []"
    by simp
  then obtain chosen g1 where "random_choice g possible = Inr (chosen, g1)"
    by (simp add: random_choice_def)
  moreover have "assign_lanes lanes (t # ts) last_lane g acc =
     (case random_choice g possible of
        Inl e \<Rightarrow> Inl e
      | Inr (chosen_lane, g1) \<Rightarrow>
          assign_lanes lanes ts chosen_lane g1
            (acc @ [\<lparr>time = py_int (t * 1000), lane = chosen_lane\<rparr>]))"
    by (simp add: possible_def Let_def)
  ultimately show ?case
    using Cons.IH [of chosen g1] by simp
qed

lemma assign_lanes_no_lanes:
  assumes "lanes \<le> 0"
  shows "assign_lanes lanes (t # ts) last_lane g acc = Inl IndexError"
  using assms by (simp add: py_range_def random_choice_def)

lemma lane_lane_notes: "length ts = length ls \<Longrightarrow> map lane (lane_notes ts ls) = ls"
  by (induction ts ls rule: list_induct2) (simp_all add: lane_notes_def)

lemma time_lane_notes:
  "length ts = length ls \<Longrightarrow> map time (lane_notes ts ls) = map (\<lambda>t. py_int (t * 1000)) ts"
  by (induction ts ls rule: list_induct2) (simp_all add: lane_notes_def)

lemma assign_lanes_adjacent:
  assumes "2 \<le> lanes" and "assign_lanes lanes ts (-1) g [] = Inr out"
  shows "\<forall>i. Suc i < length out \<longrightarrow> lane (out ! i) \<noteq> lane (out ! Suc i)"
proof -
  from assign_lanes_shape [OF assms(2)] assms(1) obtain ls where
    ls: "length ls = length ts" "out = lane_notes ts ls" "distinct_adj ls"
    by (auto dest: distinct_adj_ConsD)
  then have "distinct_adj (map lane out)"
    by (simp add: lane_lane_notes)
  then show ?thesis
    by (auto simp: distinct_adj_conv_nth)
qed

lemma assign_lanes_sorted:
  assumes "sorted ts" and "assign_lanes lanes ts (-1) g [] = Inr out"
  shows "sorted (map time out)"
proof -
  from assign_lanes_shape [OF assms(2)] obtain ls where
    "length ls = length ts" "out = lane_notes ts ls"
    by auto
  then show ?thesis
    using sorted_to_ms [OF assms(1)] by (simp add: time_lane_notes)
qed

lemma np_take_length: "np_take a ks = Inr vs \<Longrightarrow> length vs = length ks"
  by (induction ks arbitrary: vs) (auto split: sum.splits)

lemma filter_onsets_sorted:
  assumes "sorted onsets" and "filter_onsets ttf rms onsets d = Inr kept"
  shows "sorted kept"
proof -
  from assms(2) obtain strengths :: "real list" and thr :: real where
    kept: "kept = map fst (filter (\<lambda>(t, s). thr \<le> s) (zip onsets strengths))"
    by (auto simp: filter_onsets_def Let_def split: sum.splits)
  have "sorted (map fst (zip onsets strengths))"
    using assms(1) by (simp add: map_fst_zip_take sorted_wrt_take)
  then show ?thesis
    unfolding kept by (rule sorted_filter)
qed

lemma generate_smart_beatmap_cases:
  assumes "generate_smart_beatmap ttf onsets rms d lanes g = Inr out"
  obtains kept where "assign_lanes lanes kept (-1) g [] = Inr out"
    and "kept = [] \<and> onsets = [] \<or> filter_onsets ttf rms onsets d = Inr kept"
proof (cases "onsets = []")
  case True
  with assms that [of "[]"] show ?thesis
    by (simp add: generate_smart_beatmap_def)
next
  case False
  with assms that show ?thesis
    by (auto simp: generate_smart_beatmap_def split: sum.splits)
qed

lemma generate_configurable_beatmap_cases:
  assumes "generate_configurable_beatmap ttf onsets rms cfg g = Inr out"
  obtains kept where
    "assign_lanes (case cfg_lanes cfg of None \<Rightarrow> 4 | Some l \<Rightarrow> l) kept (-1) g [] = Inr out"
    and "kept = onsets \<or> filter_onsets ttf rms onsets
           (case cfg_difficulty cfg of None \<Rightarrow> 1 | Some d \<Rightarrow> d) = Inr kept"
  using assms by (auto simp: generate_configurable_beatmap_def Let_def split: sum.splits if_splits)

text \<open>
  Claim C3. When the beat times are strictly increasing and the onset times are sorted,
  the notes of every beatmap returned by one of the three generators are sorted by
  their time, non-decreasing.
\<close>

theorem notes_sorted_by_time:
  assumes "sorted_wrt (<) beat_times" and "sorted onset_times"
  shows "(generate_stream_map time_to_frames beat_times onset_times rms lanes
            stream_subdivision min_stream_duration_beats chord_chance g = Inr ns
          \<longrightarrow> sorted (map time ns))
       \<and> (generate_smart_beatmap time_to_frames onset_times rms difficulty lanes g = Inr ns
          \<longrightarrow> sorted (map time ns))
       \<and> (generate_configurable_beatmap time_to_frames onset_times rms cfg g = Inr ns
          \<longrightarrow> sorted (map time ns))"
proof (intro conjI impI)
  have "sorted beat_times"
    using assms(1) by (rule sorted_wrt_mono_rel [rotated]) simp
  then show "sorted (map time ns)"
    if "generate_stream_map time_to_frames beat_times onset_times rms lanes
            stream_subdivision min_stream_duration_beats chord_chance g = Inr ns"
    using that by (rule generate_stream_map_sorted)
next
  assume "generate_smart_beatmap time_to_frames onset_times rms difficulty lanes g = Inr ns"
  then obtain kept where "assign_lanes lanes kept (-1) g [] = Inr ns"
    and "kept = [] \<and> onset_times = []
         \<or> filter_onsets time_to_frames rms onset_times difficulty = Inr kept"
    by (rule generate_smart_beatmap_cases)
  moreover from this(2) have "sorted kept"
    using filter_onsets_sorted [OF assms(2)] by auto
  ultimately show "sorted (map time ns)"
    using assign_lanes_sorted by blast
next
  assume "generate_configurable_beatmap time_to_frames onset_times rms cfg g = Inr ns"
  then obtain kept where
    "assign_lanes (case cfg_lanes cfg of None \<Rightarrow> 4 | Some l \<Rightarrow> l) kept (-1) g [] = Inr ns"
    and "kept = onset_times \<or> filter_onsets time_to_frames rms onset_times
           (case cfg_difficulty cfg of None \<Rightarrow> 1 | Some d \<Rightarrow> d) = Inr kept"
    by (rule generate_configurable_beatmap_cases)
  moreover from this(2) have "sorted kept"
    using filter_onsets_sorted [OF assms(2)] assms(2) by auto
  ultimately show "sorted (map time ns)"
    using assign_lanes_sorted by blast
qed

theorem notes_sorted_by_time_witness:
  "sorted_wrt (<) [0, 1/2, 1, 3/2 :: real] \<and> sorted [6/5 :: real] \<and> sorted [1/2, 3/2, 5/2 :: real]
   \<and> generate_stream_map (librosa_time_to_frames 2 1) [0, 1/2, 1, 3/2] [6/5] [1, 1, 0, 0]
         4 2 2 (1/4) rng_chords
       = Inr [\<lparr>time = 0, lane = 0\<rparr>, \<lparr>time = 0, lane = 3\<rparr>, \<lparr>time = 250, lane = 2\<rparr>,
            \<lparr>time = 500, lane = 1\<rparr>, \<lparr>time = 500, lane = 2\<rparr>, \<lparr>time = 750, lane = 3\<rparr>,
            \<lparr>time = 1200, lane = 2\<rparr>, \<lparr>time = 1200, lane = 0\<rparr>]
   \<and> sorted [0, 0, 250, 500, 500, 750, 1200, 1200 :: int]
   \<and> generate_smart_beatmap (librosa_time_to_frames 1 1) [1/2, 3/2, 5/2] [1, 3, 2] (1/2) 4
         rng_first
       = Inr [\<lparr>time = 1500, lane = 0\<rparr>, \<lparr>time = 2500, lane = 1\<rparr>]
   \<and> generate_configurable_beatmap (librosa_time_to_frames 1 1) [1/2, 3/2, 5/2] [1, 3, 2]
         \<lparr>cfg_difficulty = None, cfg_lanes = None, cfg_mode = None\<rparr> rng_first
       = Inr [\<lparr>time = 500, lane = 0\<rparr>, \<lparr>time = 1500, lane = 1\<rparr>, \<lparr>time = 2500, lane = 0\<rparr>]
   \<and> sorted [1500, 2500 :: int] \<and> sorted [500, 1500, 2500 :: int]"
  using notes_sorted_by_time [where beat_times = "[0, 1/2, 1, 3/2]" and onset_times = "[6/5]"
      and time_to_frames = "librosa_time_to_frames 2 1" and rms = "[1, 1, 0, 0]" and lanes = 4
      and stream_subdivision = 2 and min_stream_duration_beats = 2 and chord_chance = "1/4"
      and g = rng_chords
      and ns = "[\<lparr>time = 0, lane = 0\<rparr>, \<lparr>time = 0, lane = 3\<rparr>, \<lparr>time = 250, lane = 2\<rparr>,
            \<lparr>time = 500, lane = 1\<rparr>, \<lparr>time = 500, lane = 2\<rparr>, \<lparr>time = 750, lane = 3\<rparr>,
            \<lparr>time = 1200, lane = 2\<rparr>, \<lparr>time = 1200, lane = 0\<rparr>]"]
    notes_sorted_by_time [where beat_times = "[0, 1]" and onset_times = "[1/2, 3/2, 5/2]"
      and time_to_frames = "librosa_time_to_frames 1 1" and rms = "[1, 3, 2]" and lanes = 4
      and g = rng_first and difficulty = "1/2"
      and ns = "[\<lparr>time = 1500, lane = 0\<rparr>, \<lparr>time = 2500, lane = 1\<rparr>]"]
    notes_sorted_by_time [where beat_times = "[0, 1]" and onset_times = "[1/2, 3/2, 5/2]"
      and time_to_frames = "librosa_time_to_frames 1 1" and rms = "[1, 3, 2]"
      and g = rng_first
      and cfg = "\<lparr>cfg_difficulty = None, cfg_lanes = None, cfg_mode = None\<rparr>"
      and ns = "[\<lparr>time = 500, lane = 0\<rparr>, \<lparr>time = 1500, lane = 1\<rparr>, \<lparr>time = 2500, lane = 0\<rparr>]"]
  by (simp add: example_stream_map example_smart_beatmap example_configurable_chaotic)

text \<open>
  Claim C7. No-repeat variant: with at least two lanes, any two adjacent notes of a
  beatmap returned by a simple generator are on different lanes, whatever the random
  source draws.
\<close>

theorem no_repeat_adjacent_lanes:
  "(2 \<le> lanes
      \<and> generate_smart_beatmap time_to_frames onset_times rms difficulty lanes g = Inr ns
    \<longrightarrow> (\<forall>i. Suc i < length ns \<longrightarrow> lane (ns ! i) \<noteq> lane (ns ! Suc i)))
   \<and> (2 \<le> (case cfg_lanes cfg of None \<Rightarrow> 4 | Some l \<Rightarrow> l)
      \<and> generate_configurable_beatmap time_to_frames onset_times rms cfg g = Inr ns
    \<longrightarrow> (\<forall>i. Suc i < length ns \<longrightarrow> lane (ns ! i) \<noteq> lane (ns ! Suc i)))"
proof (intro conjI impI; elim conjE)
  assume "2 \<le> lanes"
    and "generate_smart_beatmap time_to_frames onset_times rms difficulty lanes g = Inr ns"
  then show "\<forall>i. Suc i < length ns \<longrightarrow> lane (ns ! i) \<noteq> lane (ns ! Suc i)"
    by (elim generate_smart_beatmap_cases) (rule assign_lanes_adjacent)
next
  assume "2 \<le> (case cfg_lanes cfg of None \<Rightarrow> 4 | Some l \<Rightarrow> l)"
    and "generate_configurable_beatmap time_to_frames onset_times rms cfg g = Inr ns"
  then show "\<forall>i. Suc i < length ns \<longrightarrow> lane (ns ! i) \<noteq> lane (ns ! Suc i)"
    by (elim generate_configurable_beatmap_cases) (rule assign_lanes_adjacent)
qed

theorem no_repeat_adjacent_lanes_witness:
  "(2::int) \<le> 4
   \<and> generate_smart_beatmap (librosa_time_to_frames 1 1) [1/2, 3/2, 5/2] [1, 3, 2] (1/2) 4
         rng_first
       = Inr [\<lparr>time = 1500, lane = 0\<rparr>, \<lparr>time = 2500, lane = 1\<rparr>]
   \<and> generate_configurable_beatmap (librosa_time_to_frames 1 1) [1/2, 3/2, 5/2] [1, 3, 2]
         \<lparr>cfg_difficulty = None, cfg_lanes = None, cfg_mode = None\<rparr> rng_first
       = Inr [\<lparr>time = 500, lane = 0\<rparr>, \<lparr>time = 1500, lane = 1\<rparr>, \<lparr>time = 2500, lane = 0\<rparr>]
   \<and> lane ([\<lparr>time = 1500, lane = 0\<rparr>, \<lparr>time = 2500, lane = 1\<rparr>] ! 0)
       \<noteq> lane ([\<lparr>time = 1500, lane = 0\<rparr>, \<lparr>time = 2500, lane = 1\<rparr>] ! Suc 0)
   \<and> lane ([\<lparr>time = 500, lane = 0\<rparr>, \<lparr>time = 1500, lane = 1\<rparr>, \<lparr>time = 2500, lane = 0\<rparr>] ! 0)
       \<noteq> lane ([\<lparr>time = 500, lane = 0\<rparr>, \<lparr>time = 1500, lane = 1\<rparr>, \<lparr>time = 2500, lane = 0\<rparr>]
                 ! Suc 0)
   \<and> lane ([\<lparr>time = 500, lane = 0\<rparr>, \<lparr>time = 1500, lane = 1\<rparr>, \<lparr>time = 2500, lane = 0\<rparr>]
               ! Suc 0)
       \<noteq> lane ([\<lparr>time = 500, lane = 0\<rparr>, \<lparr>time = 1500, lane = 1\<rparr>, \<lparr>time = 2500, lane = 0\<rparr>]
                 ! Suc (Suc 0))"
proof -
  have smart: "(2::int) \<le> 4
      \<and> generate_smart_beatmap (librosa_time_to_frames 1 1) [1/2, 3/2, 5/2] [1, 3, 2] (1/2) 4
         rng_first
       = Inr [\<lparr>time = 1500, lane = 0\<rparr>, \<lparr>time = 2500, lane = 1\<rparr>]"
    by (simp add: example_smart_beatmap)
  have chaotic: "(2::int) \<le> (case cfg_lanes \<lparr>cfg_difficulty = None, cfg_lanes = None,
                                               cfg_mode = None\<rparr> of None \<Rightarrow> 4 | Some l \<Rightarrow> l)
      \<and> generate_configurable_beatmap (librosa_time_to_frames 1 1) [1/2, 3/2, 5/2] [1, 3, 2]
         \<lparr>cfg_difficulty = None, cfg_lanes = None, cfg_mode = None\<rparr> rng_first
       = Inr [\<lparr>time = 500, lane = 0\<rparr>, \<lparr>time = 1500, lane = 1\<rparr>, \<lparr>time = 2500, lane = 0\<rparr>]"
    by (simp add: example_configurable_chaotic)
  note adjacent = no_repeat_adjacent_lanes [THEN conjunct1, rule_format, OF smart]
    no_repeat_adjacent_lanes [THEN conjunct2, rule_format, OF chaotic]
  show ?thesis
    using smart chaotic adjacent(1) [of 0] adjacent(2) [of 0] adjacent(2) [of "Suc 0"]
    by simp
qed

subsection \<open>Percentiles\<close>

lemma sort_not_Nil: "a \<noteq> [] \<Longrightarrow> sort a \<noteq> []"
  by (metis length_sort length_0_conv)

lemma sorted_first_Min:
  assumes "sorted s" and "s \<noteq> []"
  shows "s ! 0 = Min (set s)"
proof -
  have "\<forall>x \<in> set s. s ! 0 \<le> x"
    using assms by (metis in_set_conv_nth le0 sorted_iff_nth_mono)
  then show ?thesis
    using assms(2) by (intro Min_eqI [symmetric]) simp_all
qed

lemma sorted_last_Max:
  assumes "sorted s" and "s \<noteq> []"
  shows "s ! (length s - 1) = Max (set s)"
proof -
  have "\<forall>x \<in> set s. x \<le> s ! (length s - 1)"
  proof
    fix x assume "x \<in> set s"
    then obtain i where "i < length s" "x = s ! i"
      by (auto simp: in_set_conv_nth)
    then show "x \<le> s ! (length s - 1)"
      using assms(1) by (simp add: sorted_iff_nth_mono)
  qed
  then show ?thesis
    using assms(2) by (intro Max_eqI [symmetric]) simp_all
qed

lemma percentile_linear_0:
  assumes "a \<noteq> []"
  shows "percentile_linear a 0 = Min (set a)"
proof -
  have "sort a ! 0 = Min (set (sort a))"
    using assms by (intro sorted_first_Min) (simp_all add: sort_not_Nil)
  then show ?thesis
    using assms by (simp add: percentile_linear_def Let_def sort_not_Nil)
qed

lemma percentile_linear_100:
  assumes "a \<noteq> []"
  shows "percentile_linear a 100 = Max (set a)"
proof -
  have "sort a ! (length (sort a) - 1) = Max (set (sort a))"
    using assms by (intro sorted_last_Max) (simp_all add: sort_not_Nil)
  then show ?thesis
    using assms by (simp add: percentile_linear_def Let_def sort_not_Nil)
qed

lemma percentile_linear_le_Max:
  assumes "a \<noteq> []" and "0 \<le> q" and "q \<le> 100"
  shows "percentile_linear a q \<le> Max (set a)"
proof -
  define s where "s = sort a"
  define n where "n = length s"
  define v where "v = q / 100 * real (n - 1)"
  define lo where "lo = nat \<lfloor>v\<rfloor>"
  define hi where "hi = min (lo + 1) (n - 1)"
  have n: "0 < n" and s: "sorted s" "set s = set a"
    using assms(1) by (simp_all add: n_def s_def)
  have v0: "0 \<le> v"
    using assms(2) by (simp add: v_def)
  have "q / 100 \<le> 1"
    using assms(3) by simp
  then have "q / 100 * real (n - 1) \<le> 1 * real (n - 1)"
    by (intro mult_right_mono) simp_all
  then have v1: "v \<le> real (n - 1)"
    by (simp add: v_def)
  have lo_le: "real lo \<le> v" and lo_gt: "v < real lo + 1"
    using v0 by (simp_all add: lo_def)
  have "lo \<le> n - 1"
    using lo_le v1 by linarith
  then have hi: "lo \<le> hi" "hi < n"
    using n by (auto simp: hi_def)
  have le: "s ! lo \<le> s ! hi"
    using s(1) hi by (simp add: sorted_iff_nth_mono n_def)
  have "(v - real lo) * (s ! hi - s ! lo) \<le> 1 * (s ! hi - s ! lo)"
    using le lo_gt by (intro mult_right_mono) simp_all
  then have "s ! lo + (v - real lo) * (s ! hi - s ! lo) \<le> s ! hi"
    by simp
  also have "s ! hi \<le> Max (set s)"
    using hi by (simp add: n_def)
  finally have "s ! lo + (v - real lo) * (s ! hi - s ! lo) \<le> Max (set a)"
    by (simp add: s)
  moreover have "percentile_linear a q = s ! lo + (v - real lo) * (s ! hi - s ! lo)"
    using n unfolding percentile_linear_def Let_def s_def [symmetric] n_def [symmetric]
      v_def [symmetric] lo_def [symmetric] hi_def [symmetric] by simp
  ultimately show ?thesis
    by simp
qed

subsection \<open>Difficulty filter\<close>

lemma filter_onsets_unfold:
  assumes "np_take rms (map ttf onsets) = Inr strengths" and "0 \<le> q" and "q \<le> 100"
    and "q = (1 - d) * 100"
  shows "filter_onsets ttf rms onsets d
         = Inr (map fst (filter (\<lambda>(t, s). percentile_linear strengths q \<le> s)
                           (zip onsets strengths)))"
  using assms by (simp add: filter_onsets_def np_percentile_def)

lemma keep_all:
  assumes "length xs = length ys" and "\<forall>y \<in> set ys. thr \<le> y"
  shows "map fst (filter (\<lambda>(t, s). thr \<le> s) (zip xs ys)) = xs"
  using assms by (induction xs ys rule: list_induct2) simp_all

lemma keep_some:
  assumes "length xs = length ys" and "y \<in> set ys" and "thr \<le> y"
  shows "map fst (filter (\<lambda>(t, s). thr \<le> (s :: real)) (zip xs ys)) \<noteq> []"
  using assms by (induction xs ys rule: list_induct2) auto

lemma np_take_succeeds:
  assumes "\<forall>k \<in> set ks. - int (length a) \<le> k \<and> k < int (length a)"
  shows "\<exists>vs. np_take a ks = Inr vs"
  using assms
proof (induction ks)
  case Nil
  then show ?case by simp
next
  case (Cons k ks)
  then obtain vs where "np_take a ks = Inr vs"
    by auto
  moreover have "\<exists>v. np_index a k = Inr v"
    using Cons.prems by (cases "0 \<le> k") (simp_all add: np_index_def Let_def)
  then obtain v where "np_index a k = Inr v" ..
  ultimately show ?case
    by simp
qed

text \<open>
  Claim C8. For a non-empty onset list whose energies can be read from the RMS curve:
  at difficulty 1 the threshold is the 0th percentile of the onset energies, their
  minimum, and every onset is kept; at difficulty 0 exactly the onsets whose energy is
  at or above the maximum onset energy are kept.
\<close>

theorem difficulty_extremes:
  assumes "onset_times \<noteq> []"
    and "np_take rms (map time_to_frames onset_times) = Inr onset_strengths"
  shows "np_percentile onset_strengths ((1 - 1) * 100) = Inr (Min (set onset_strengths))
       \<and> filter_onsets time_to_frames rms onset_times 1 = Inr onset_times
       \<and> filter_onsets time_to_frames rms onset_times 0
         = Inr (map fst (filter (\<lambda>(t, s). Max (set onset_strengths) \<le> s)
                           (zip onset_times onset_strengths)))"
proof -
  have len: "length onset_times = length onset_strengths"
    using np_take_length [OF assms(2)] by simp
  with assms(1) have ne: "onset_strengths \<noteq> []"
    by auto
  have "\<forall>s \<in> set onset_strengths. Min (set onset_strengths) \<le> s"
    by simp
  with len have "map fst (filter (\<lambda>(t, s). Min (set onset_strengths) \<le> s)
                            (zip onset_times onset_strengths)) = onset_times"
    by (rule keep_all)
  moreover have "filter_onsets time_to_frames rms onset_times 1
         = Inr (map fst (filter (\<lambda>(t, s). percentile_linear onset_strengths 0 \<le> s)
                           (zip onset_times onset_strengths)))"
    using assms(2) by (rule filter_onsets_unfold) simp_all
  moreover have "filter_onsets time_to_frames rms onset_times 0
         = Inr (map fst (filter (\<lambda>(t, s). percentile_linear onset_strengths 100 \<le> s)
                           (zip onset_times onset_strengths)))"
    using assms(2) by (rule filter_onsets_unfold) simp_all
  ultimately show ?thesis
    by (simp add: np_percentile_def percentile_linear_0 [OF ne] percentile_linear_100 [OF ne])
qed

theorem difficulty_extremes_witness:
  "[1/2, 3/2, 5/2 :: real] \<noteq> []
   \<and> np_take [1, 3, 2] (map (librosa_time_to_frames 1 1) [1/2, 3/2, 5/2]) = Inr [1, 3, 2]
   \<and> np_percentile [1, 3, 2] ((1 - 1) * 100) = Inr 1
   \<and> filter_onsets (librosa_time_to_frames 1 1) [1, 3, 2] [1/2, 3/2, 5/2] 1
       = Inr [1/2, 3/2, 5/2]
   \<and> filter_onsets (librosa_time_to_frames 1 1) [1, 3, 2] [1/2, 3/2, 5/2] 0 = Inr [3/2]"
proof -
  have h: "np_take [1, 3, 2] (map (librosa_time_to_frames 1 1) [1/2, 3/2, 5/2 :: real])
             = Inr [1, 3, 2]"
    by (simp add: librosa_time_to_frames_def np_index_def)
  show ?thesis
    using difficulty_extremes [OF _ h] h by simp
qed

lemma filter_onsets_nonempty:
  assumes "0 \<le> d" and "d \<le> 1" and "onsets \<noteq> []"
    and "filter_onsets ttf rms onsets d = Inr kept"
  shows "kept \<noteq> []"
proof -
  from assms(4) obtain strengths where
    st: "np_take rms (map ttf onsets) = Inr strengths"
    by (auto simp: filter_onsets_def Let_def split: sum.splits)
  have len: "length onsets = length strengths"
    using np_take_length [OF st] by simp
  with assms(3) have ne: "strengths \<noteq> []"
    by auto
  have q: "0 \<le> (1 - d) * 100" "(1 - d) * 100 \<le> 100"
    using assms(1,2) by simp_all
  have "kept = map fst (filter (\<lambda>(t, s). percentile_linear strengths ((1 - d) * 100) \<le> s)
                           (zip onsets strengths))"
    using filter_onsets_unfold [OF st q refl] assms(4) by simp
  moreover have "Max (set strengths) \<in> set strengths"
    using ne by (intro Max_in) simp_all
  moreover have "percentile_linear strengths ((1 - d) * 100) \<le> Max (set strengths)"
    using ne q by (rule percentile_linear_le_Max)
  ultimately show ?thesis
    using keep_some [OF len] by blast
qed

lemma filter_onsets_succeeds:
  assumes "0 \<le> d" and "d \<le> 1"
    and "\<forall>t \<in> set onsets. - int (length rms) \<le> ttf t \<and> ttf t < int (length rms)"
  shows "\<exists>kept. filter_onsets ttf rms onsets d = Inr kept"
proof -
  from assms(3) have "\<forall>k \<in> set (map ttf onsets). - int (length rms) \<le> k \<and> k < int (length rms)"
    by simp
  then obtain strengths where "np_take rms (map ttf onsets) = Inr strengths"
    using np_take_succeeds by blast
  moreover have "0 \<le> (1 - d) * 100" "(1 - d) * 100 \<le> 100"
    using assms(1,2) by simp_all
  ultimately show ?thesis
    using filter_onsets_unfold [OF _ _ _ refl] by blast
qed

lemma assign_lanes_nonempty:
  assumes "assign_lanes lanes ts last_lane g acc = Inr out" and "ts \<noteq> []"
  shows "out \<noteq> []"
proof -
  from assign_lanes_shape [OF assms(1)] obtain ls where
    "length ls = length ts" "out = acc @ lane_notes ts ls"
    by blast
  with assms(2) show ?thesis
    by (cases ts; cases ls) (simp_all add: lane_notes_def)
qed

text \<open>
  Claim C10. For a difficulty in \<open>[0, 1]\<close> and a non-empty onset list, the filter
  never returns an empty list, so every beatmap returned in smart mode has at least
  one note; and with at least one lane and every onset frame inside the RMS curve a
  beatmap is returned.
\<close>

theorem smart_filter_keeps_a_note:
  assumes "0 \<le> difficulty" and "difficulty \<le> 1" and "onset_times \<noteq> []"
  shows "(\<forall>kept. filter_onsets time_to_frames rms onset_times difficulty = Inr kept
            \<longrightarrow> kept \<noteq> [])
       \<and> (\<forall>notes. generate_smart_beatmap time_to_frames onset_times rms difficulty lanes g
                     = Inr notes \<longrightarrow> notes \<noteq> [])
       \<and> (\<forall>notes. generate_configurable_beatmap time_to_frames onset_times rms
                     \<lparr>cfg_difficulty = Some difficulty, cfg_lanes = Some lanes,
                      cfg_mode = Some ''smart''\<rparr> g = Inr notes \<longrightarrow> notes \<noteq> [])
       \<and> (1 \<le> lanes
            \<and> (\<forall>t \<in> set onset_times. - int (length rms) \<le> time_to_frames t
                                      \<and> time_to_frames t < int (length rms))
          \<longrightarrow> (\<exists>notes. generate_smart_beatmap time_to_frames onset_times rms difficulty lanes g
                         = Inr notes)
              \<and> (\<exists>notes. generate_configurable_beatmap time_to_frames onset_times rms
                     \<lparr>cfg_difficulty = Some difficulty, cfg_lanes = Some lanes,
                      cfg_mode = Some ''smart''\<rparr> g = Inr notes))"
proof (intro conjI allI impI)
  fix kept
  assume "filter_onsets time_to_frames rms onset_times difficulty = Inr kept"
  with assms show "kept \<noteq> []"
    by (rule filter_onsets_nonempty)
next
  fix ns
  assume "generate_smart_beatmap time_to_frames onset_times rms difficulty lanes g = Inr ns"
  then obtain kept where
    "filter_onsets time_to_frames rms onset_times difficulty = Inr kept"
    "assign_lanes lanes kept (-1) g [] = Inr ns"
    using assms(3) by (auto simp: generate_smart_beatmap_def split: sum.splits)
  then show "ns \<noteq> []"
    using filter_onsets_nonempty [OF assms] assign_lanes_nonempty by blast
next
  fix ns
  assume "generate_configurable_beatmap time_to_frames onset_times rms
            \<lparr>cfg_difficulty = Some difficulty, cfg_lanes = Some lanes,
             cfg_mode = Some ''smart''\<rparr> g = Inr ns"
  then obtain kept where
    "filter_onsets time_to_frames rms onset_times difficulty = Inr kept"
    "assign_lanes lanes kept (-1) g [] = Inr ns"
    using assms(3) by (auto simp: generate_configurable_beatmap_def split: sum.splits)
  then show "ns \<noteq> []"
    using filter_onsets_nonempty [OF assms] assign_lanes_nonempty by blast
next
  assume a: "1 \<le> lanes
            \<and> (\<forall>t \<in> set onset_times. - int (length rms) \<le> time_to_frames t
                                      \<and> time_to_frames t < int (length rms))"
  then obtain kept where k: "filter_onsets time_to_frames rms onset_times difficulty = Inr kept"
    using filter_onsets_succeeds [OF assms(1,2)] by blast
  from a obtain ns where n: "assign_lanes lanes kept (-1) g [] = Inr ns"
    using assign_lanes_succeeds by blast
  show "\<exists>notes. generate_smart_beatmap time_to_frames onset_times rms difficulty lanes g
                         = Inr notes"
    using k n assms(3) by (simp add: generate_smart_beatmap_def)
  show "\<exists>notes. generate_configurable_beatmap time_to_frames onset_times rms
                     \<lparr>cfg_difficulty = Some difficulty, cfg_lanes = Some lanes,
                      cfg_mode = Some ''smart''\<rparr> g = Inr notes"
    using k n assms(3) by (simp add: generate_configurable_beatmap_def)
qed

theorem smart_filter_keeps_a_note_witness:
  "(0::real) \<le> 1/2 \<and> (1/2::real) \<le> 1 \<and> [1/2, 3/2, 5/2 :: real] \<noteq> []
   \<and> filter_onsets (librosa_time_to_frames 1 1) [1, 3, 2] [1/2, 3/2, 5/2] (1/2) = Inr [3/2, 5/2]
   \<and> generate_smart_beatmap (librosa_time_to_frames 1 1) [1/2, 3/2, 5/2] [1, 3, 2] (1/2) 4
         rng_first
       = Inr [\<lparr>time = 1500, lane = 0\<rparr>, \<lparr>time = 2500, lane = 1\<rparr>]
   \<and> generate_configurable_beatmap (librosa_time_to_frames 1 1) [1/2, 3/2, 5/2] [1, 3, 2]
       \<lparr>cfg_difficulty = Some (1/2), cfg_lanes = Some 4, cfg_mode = Some ''smart''\<rparr> rng_first
     = Inr [\<lparr>time = 1500, lane = 0\<rparr>, \<lparr>time = 2500, lane = 1\<rparr>]
   \<and> (1::int) \<le> 4
   \<and> librosa_time_to_frames 1 1 (1/2) = 0 \<and> librosa_time_to_frames 1 1 (3/2) = 1
   \<and> librosa_time_to_frames 1 1 (5/2) = 2 \<and> int (length [1, 3, 2 :: real]) = 3"
  using smart_filter_keeps_a_note [where difficulty = "1/2" and onset_times = "[1/2, 3/2, 5/2]"
      and time_to_frames = "librosa_time_to_frames 1 1" and rms = "[1, 3, 2]" and lanes = 4
      and g = rng_first]
  by (simp add: example_smart_beatmap example_configurable_smart)
    (simp add: filter_onsets_def np_index_def np_percentile_def
      percentile_linear_def librosa_time_to_frames_def Let_def)

subsection \<open>Cyclic pattern\<close>

lemma patterns_nth_length: "length (patterns ! (k mod 3)) = 8"
proof -
  have "k mod 3 = 0 \<or> k mod 3 = 1 \<or> k mod 3 = 2"
    by presburger
  then show ?thesis
    by (auto simp: patterns_def)
qed

lemma primaries_nth:
  "primaries pat 0 ts
     = map (\<lambda>n. \<lparr>time = py_int (ts ! n * 1000), lane = pat ! (n mod length pat)\<rparr>)
         [0..<length ts]"
  by (rule nth_equalityI) (simp_all add: primaries_def nth_enumerate_eq)

text \<open>
  Claim C6. A beatmap returned by the expert generator consists of one primary note
  per generated timestamp, in order, each followed by at most one chord note. The
  \<open>n\<close>-th primary note is on lane \<open>pattern[n mod 8]\<close>, where \<open>pattern\<close> is the one
  pattern drawn at the start of the placement, whether or not the timestamp is a
  downbeat.
\<close>

theorem primary_lanes_follow_pattern:
  assumes "generate_stream_map time_to_frames beat_times onset_times rms lanes
             stream_subdivision min_stream_duration_beats chord_chance g = Inr ns"
  shows "\<exists>note_timestamps beat_flags chords.
           stream_timestamps time_to_frames beat_times onset_times rms
             stream_subdivision min_stream_duration_beats = Inr (note_timestamps, beat_flags)
           \<and> length chords = length note_timestamps
           \<and> ns = with_chords
                 (map (\<lambda>n. \<lparr>time = py_int (note_timestamps ! n * 1000),
                             lane = patterns ! (draws g (pos g) mod 3) ! (n mod 8)\<rparr>)
                    [0..<length note_timestamps])
                 chords"
proof -
  from assms obtain ts fl where
    st: "stream_timestamps time_to_frames beat_times onset_times rms
           stream_subdivision min_stream_duration_beats = Inr (ts, fl)"
    and pl: "place_pattern_notes lanes chord_chance fl ts g = Inr ns"
    by (auto simp: generate_stream_map_def split: sum.splits)
  from place_pattern_notes_shape [OF pl] obtain cs where
    cs: "list_all2 (chord_ok lanes) (primaries (patterns ! (draws g (pos g) mod 3)) 0 ts) cs"
    and ns: "ns = with_chords (primaries (patterns ! (draws g (pos g) mod 3)) 0 ts) cs"
    by blast
  have "length cs = length ts"
    using list_all2_lengthD [OF cs] by (simp add: primaries_def)
  with st ns show ?thesis
    by (auto simp: primaries_nth patterns_nth_length)
qed

theorem primary_lanes_follow_pattern_witness:
  "generate_stream_map (librosa_time_to_frames 2 1) [0, 1/2, 1, 3/2] [6/5] [1, 1, 0, 0]
       4 2 2 (1/4) rng_chords
     = Inr [\<lparr>time = 0, lane = 0\<rparr>, \<lparr>time = 0, lane = 3\<rparr>, \<lparr>time = 250, lane = 2\<rparr>,
            \<lparr>time = 500, lane = 1\<rparr>, \<lparr>time = 500, lane = 2\<rparr>, \<lparr>time = 750, lane = 3\<rparr>,
            \<lparr>time = 1200, lane = 2\<rparr>, \<lparr>time = 1200, lane = 0\<rparr>]
   \<and> (\<exists>chords. length chords = length [0, 1/4, 1/2, 3/4, 6/5 :: real]
        \<and> [\<lparr>time = 0, lane = 0\<rparr>, \<lparr>time = 0, lane = 3\<rparr>, \<lparr>time = 250, lane = 2\<rparr>,
            \<lparr>time = 500, lane = 1\<rparr>, \<lparr>time = 500, lane = 2\<rparr>, \<lparr>time = 750, lane = 3\<rparr>,
            \<lparr>time = 1200, lane = 2\<rparr>, \<lparr>time = 1200, lane = 0\<rparr>]
          = with_chords
              [\<lparr>time = 0, lane = 0\<rparr>, \<lparr>time = 250, lane = 2\<rparr>, \<lparr>time = 500, lane = 1\<rparr>,
               \<lparr>time = 750, lane = 3\<rparr>, \<lparr>time = 1200, lane = 2\<rparr>]
              chords)"
proof -
  have gen: "generate_stream_map (librosa_time_to_frames 2 1) [0, 1/2, 1, 3/2] [6/5] [1, 1, 0, 0]
       4 2 2 (1/4) rng_chords
     = Inr [\<lparr>time = 0, lane = 0\<rparr>, \<lparr>time = 0, lane = 3\<rparr>, \<lparr>time = 250, lane = 2\<rparr>,
            \<lparr>time = 500, lane = 1\<rparr>, \<lparr>time = 500, lane = 2\<rparr>, \<lparr>time = 750, lane = 3\<rparr>,
            \<lparr>time = 1200, lane = 2\<rparr>, \<lparr>time = 1200, lane = 0\<rparr>]"
    by (rule example_stream_map)
  have prim: "map (\<lambda>n. \<lparr>time = py_int ([0, 1/4, 1/2, 3/4, 6/5] ! n * 1000),
                      lane = patterns ! (draws rng_chords (pos rng_chords) mod 3) ! (n mod 8)\<rparr>)
                [0..<length [0, 1/4, 1/2, 3/4, 6/5 :: real]]
              = [\<lparr>time = 0, lane = 0\<rparr>, \<lparr>time = 250, lane = 2\<rparr>, \<lparr>time = 500, lane = 1\<rparr>,
                 \<lparr>time = 750, lane = 3\<rparr>, \<lparr>time = 1200, lane = 2\<rparr>]"
    by (simp add: rng_chords_def patterns_def py_int_def upt_rec)
  from primary_lanes_follow_pattern [OF gen] show ?thesis
    unfolding example_stream_timestamps using gen prim by auto
qed

subsection \<open>Lanes at the same time\<close>

lemma at_most_two_suffix:
  assumes "at_most_two_per_time (xs @ ys)"
  shows "at_most_two_per_time ys"
  unfolding at_most_two_per_time_def
proof
  fix n
  assume "n \<in> set ys"
  then have "length (filter (\<lambda>m. time m = time n) (xs @ ys)) \<le> 2"
    using assms by (simp add: at_most_two_per_time_def)
  then show "length (filter (\<lambda>m. time m = time n) ys) \<le> 2"
    by simp
qed

lemma at_most_two_three:
  assumes "at_most_two_per_time (a # b # c # xs)" and "time b = time a" and "time c = time a"
  shows False
  using assms by (simp add: at_most_two_per_time_def)

lemma pairs_adjacent:
  assumes "sorted (map time ns)" and "at_most_two_per_time ns"
    and "i < j" and "j < length ns" and "time (ns ! i) = time (ns ! j)"
  shows "j = Suc i"
proof (rule ccontr)
  assume "j \<noteq> Suc i"
  with assms(3) have lt: "Suc i < j"
    by simp
  have "time (ns ! i) \<le> time (ns ! Suc i)" and "time (ns ! Suc i) \<le> time (ns ! j)"
    using assms(1,4) lt by (simp_all add: sorted_iff_nth_mono)
  with assms(5) have mid: "time (ns ! Suc i) = time (ns ! i)"
    by simp
  have "{i, Suc i, j} \<subseteq> {k. k < length ns \<and> time (ns ! k) = time (ns ! i)}"
    using assms(4,5) lt mid by auto
  then have "card {i, Suc i, j} \<le> card {k. k < length ns \<and> time (ns ! k) = time (ns ! i)}"
    by (intro card_mono) simp_all
  moreover have "card {i, Suc i, j} = 3"
    using lt by simp
  ultimately have "3 \<le> length (filter (\<lambda>m. time m = time (ns ! i)) ns)"
    by (simp add: length_filter_conv_card)
  moreover have "ns ! i \<in> set ns"
    using assms(3,4) by simp
  ultimately show False
    using assms(2) by (auto simp: at_most_two_per_time_def)
qed

lemma same_time_from_adjacent:
  assumes "sorted (map time ns)" and "at_most_two_per_time ns"
    and "successively (\<lambda>a b. time a = time b \<longrightarrow> lane a \<noteq> lane b) ns"
  shows "same_time_distinct_lanes ns"
  unfolding same_time_distinct_lanes_def
proof (intro allI impI)
  fix j i
  assume "j < length ns" "i < j" "time (ns ! i) = time (ns ! j)"
  with assms(1,2) have "j = Suc i"
    by (intro pairs_adjacent)
  with assms(3) \<open>j < length ns\<close> \<open>time (ns ! i) = time (ns ! j)\<close>
  show "lane (ns ! i) \<noteq> lane (ns ! j)"
    by (auto simp: successively_conv_nth)
qed

lemma patterns_adjacent:
  "patterns ! (k mod 3) ! (n mod 8) \<noteq> patterns ! (k mod 3) ! (Suc n mod 8)"
proof -
  have k: "k mod 3 = 0 \<or> k mod 3 = 1 \<or> k mod 3 = 2"
    by presburger
  have n: "n mod 8 = 0 \<or> n mod 8 = 1 \<or> n mod 8 = 2 \<or> n mod 8 = 3
           \<or> n mod 8 = 4 \<or> n mod 8 = 5 \<or> n mod 8 = 6 \<or> n mod 8 = 7"
    by presburger
  have s: "Suc n mod 8 = Suc (n mod 8) mod 8"
    by presburger
  show ?thesis
    unfolding s using k n by (auto simp: patterns_def)
qed

lemma with_chords_hd:
  assumes "length cs = length ts" and "ts \<noteq> []"
  shows "\<exists>rest. with_chords (primaries pat p ts) cs
           = \<lparr>time = py_int (hd ts * 1000), lane = pat ! (p mod length pat)\<rparr> # rest"
  using assms by (cases ts; cases cs) (simp_all add: primaries_def)

lemma with_chords_adjacent:
  assumes "\<forall>n. pat ! (n mod length pat) \<noteq> pat ! (Suc n mod length pat)"
    and "list_all2 (chord_ok lanes) (primaries pat p ts) cs"
    and "at_most_two_per_time (with_chords (primaries pat p ts) cs)"
  shows "successively (\<lambda>a b. time a = time b \<longrightarrow> lane a \<noteq> lane b)
           (with_chords (primaries pat p ts) cs)"
  using assms(2,3)
proof (induction ts arbitrary: p cs)
  case Nil
  then show ?case by (simp add: primaries_def)
next
  case (Cons t ts)
  let ?P = "\<lparr>time = py_int (t * 1000), lane = pat ! (p mod length pat)\<rparr>"
  let ?R = "\<lambda>a b. time a = time b \<longrightarrow> lane a \<noteq> lane b"
  have prim: "primaries pat p (t # ts) = ?P # primaries pat (Suc p) ts"
    by (simp add: primaries_def)
  from Cons.prems(1) obtain c cs' where cs: "cs = c # cs'"
    and ok: "chord_ok lanes ?P c"
    and rest_ok: "list_all2 (chord_ok lanes) (primaries pat (Suc p) ts) cs'"
    unfolding prim by (auto simp: list_all2_Cons1)
  let ?rest = "with_chords (primaries pat (Suc p) ts) cs'"
  let ?ch = "case c of None \<Rightarrow> [] | Some l \<Rightarrow> [\<lparr>time = time ?P, lane = l\<rparr>]"
  have out: "with_chords (primaries pat p (t # ts)) cs = ?P # ?ch @ ?rest"
    by (simp add: prim cs)
  have two: "at_most_two_per_time (?P # ?ch @ ?rest)"
    using Cons.prems(2) by (simp only: out)
  then have "at_most_two_per_time ?rest"
    using at_most_two_suffix [of "?P # ?ch" ?rest] by simp
  with rest_ok have IH: "successively ?R ?rest"
    by (rule Cons.IH)
  have len: "length cs' = length ts"
    using list_all2_lengthD [OF rest_ok] by (simp add: primaries_def)
  show ?case
  proof (cases ts)
    case Nil
    with len ok show ?thesis
      unfolding out by (auto simp: primaries_def chord_ok_def split: option.splits)
  next
    case (Cons t' ts')
    then obtain rest' where rest: "?rest
        = \<lparr>time = py_int (t' * 1000), lane = pat ! (Suc p mod length pat)\<rparr> # rest'"
      using with_chords_hd [OF len, of pat "Suc p"] by auto
    show ?thesis
    proof (cases c)
      case None
      with IH assms(1) show ?thesis
        unfolding out rest by simp
    next
      case (Some l)
      have "time \<lparr>time = py_int (t' * 1000), lane = pat ! (Suc p mod length pat)\<rparr>
              \<noteq> time ?P"
        using two at_most_two_three [of ?P "\<lparr>time = time ?P, lane = l\<rparr>"
            "\<lparr>time = py_int (t' * 1000), lane = pat ! (Suc p mod length pat)\<rparr>" rest']
        unfolding rest Some by auto
      with IH ok Some show ?thesis
        unfolding out rest by (simp add: chord_ok_def)
    qed
  qed
qed

lemma assign_lanes_successively:
  assumes "2 \<le> lanes" and "assign_lanes lanes ts (-1) g [] = Inr out"
  shows "successively (\<lambda>a b. time a = time b \<longrightarrow> lane a \<noteq> lane b) out"
  using assign_lanes_adjacent [OF assms] by (simp add: successively_conv_nth)

lemma generate_stream_map_successively:
  assumes "generate_stream_map ttf bt ot rms lanes S D cc g = Inr out"
    and "at_most_two_per_time out"
  shows "successively (\<lambda>a b. time a = time b \<longrightarrow> lane a \<noteq> lane b) out"
proof -
  from assms(1) obtain ts fl where
    pl: "place_pattern_notes lanes cc fl ts g = Inr out"
    by (auto simp: generate_stream_map_def split: sum.splits)
  from place_pattern_notes_shape [OF pl] obtain cs where
    cs: "list_all2 (chord_ok lanes) (primaries (patterns ! (draws g (pos g) mod 3)) 0 ts) cs"
    and out: "out = with_chords (primaries (patterns ! (draws g (pos g) mod 3)) 0 ts) cs"
    by blast
  have "\<forall>n. patterns ! (draws g (pos g) mod 3) ! (n mod length (patterns ! (draws g (pos g) mod 3)))
          \<noteq> patterns ! (draws g (pos g) mod 3)
              ! (Suc n mod length (patterns ! (draws g (pos g) mod 3)))"
    by (simp add: patterns_nth_length patterns_adjacent)
  from this cs assms(2) [unfolded out] show ?thesis
    unfolding out by (rule with_chords_adjacent)
qed

lemma same_time_same_lane:
  assumes "i < j" and "j < length ns" and "time (ns ! i) = time (ns ! j)"
    and "lane (ns ! i) = lane (ns ! j)"
  shows "\<not> same_time_distinct_lanes ns"
  using assms by (auto simp: same_time_distinct_lanes_def)

lemma example_pair_configurable:
  "generate_configurable_beatmap (librosa_time_to_frames 1 1) [101/10000, 103/10000, 1/2] [1]
       \<lparr>cfg_difficulty = None, cfg_lanes = Some 2, cfg_mode = None\<rparr> rng_first
     = Inr [\<lparr>time = 10, lane = 0\<rparr>, \<lparr>time = 10, lane = 1\<rparr>, \<lparr>time = 500, lane = 0\<rparr>]"
  by (simp add: generate_configurable_beatmap_def rng_first_def random_choice_def
      py_int_def upt_rec Let_def)

lemma example_pair_smart:
  "generate_smart_beatmap (librosa_time_to_frames 1 1) [101/10000, 103/10000, 1/2] [1] (1/2) 2
       rng_first
     = Inr [\<lparr>time = 10, lane = 0\<rparr>, \<lparr>time = 10, lane = 1\<rparr>, \<lparr>time = 500, lane = 0\<rparr>]"
  by (simp add: generate_smart_beatmap_def filter_onsets_def np_index_def np_percentile_def
      percentile_linear_def librosa_time_to_frames_def rng_first_def random_choice_def
      py_int_def upt_rec Let_def)

text \<open>
  Claim C4 does not hold as stated, at two inputs of the configurable generator. Three
  onsets within the same millisecond and two lanes: three notes at time 10, the first
  and the third on lane 0. Two onsets within the same millisecond and one lane: two
  notes at time 10, both on lane 0.
\<close>

theorem same_time_same_lane_counterexample:
  "generate_configurable_beatmap (librosa_time_to_frames 1 1) [101/10000, 104/10000, 107/10000] [1]
       \<lparr>cfg_difficulty = None, cfg_lanes = Some 2, cfg_mode = None\<rparr> rng_first
     = Inr [\<lparr>time = 10, lane = 0\<rparr>, \<lparr>time = 10, lane = 1\<rparr>, \<lparr>time = 10, lane = 0\<rparr>]
   \<and> \<not> same_time_distinct_lanes
         [\<lparr>time = 10, lane = 0\<rparr>, \<lparr>time = 10, lane = 1\<rparr>, \<lparr>time = 10, lane = 0\<rparr>]
   \<and> generate_configurable_beatmap (librosa_time_to_frames 1 1) [101/10000, 103/10000] [1]
       \<lparr>cfg_difficulty = None, cfg_lanes = Some 1, cfg_mode = None\<rparr> rng_first
     = Inr [\<lparr>time = 10, lane = 0\<rparr>, \<lparr>time = 10, lane = 0\<rparr>]
   \<and> \<not> same_time_distinct_lanes [\<lparr>time = 10, lane = 0\<rparr>, \<lparr>time = 10, lane = 0\<rparr>]"
proof -
  have "\<not> same_time_distinct_lanes
         [\<lparr>time = 10, lane = 0\<rparr>, \<lparr>time = 10, lane = 1\<rparr>, \<lparr>time = 10, lane = 0\<rparr>]"
    by (rule same_time_same_lane [of 0 2]) simp_all
  moreover have "\<not> same_time_distinct_lanes [\<lparr>time = 10, lane = 0\<rparr>, \<lparr>time = 10, lane = 0\<rparr>]"
    by (rule same_time_same_lane [of 0 1]) simp_all
  moreover have "generate_configurable_beatmap (librosa_time_to_frames 1 1)
       [101/10000, 104/10000, 107/10000] [1]
       \<lparr>cfg_difficulty = None, cfg_lanes = Some 2, cfg_mode = None\<rparr> rng_first
     = Inr [\<lparr>time = 10, lane = 0\<rparr>, \<lparr>time = 10, lane = 1\<rparr>, \<lparr>time = 10, lane = 0\<rparr>]"
    by (simp add: generate_configurable_beatmap_def rng_first_def random_choice_def
      py_int_def upt_rec Let_def)
  moreover have "generate_configurable_beatmap (librosa_time_to_frames 1 1)
       [101/10000, 103/10000] [1]
       \<lparr>cfg_difficulty = None, cfg_lanes = Some 1, cfg_mode = None\<rparr> rng_first
     = Inr [\<lparr>time = 10, lane = 0\<rparr>, \<lparr>time = 10, lane = 0\<rparr>]"
    by (simp add: generate_configurable_beatmap_def rng_first_def random_choice_def
      py_range_def py_int_def Let_def)
  ultimately show ?thesis
    by simp
qed

text \<open>
  Claim C4, amended. Beat times strictly increasing and onset times sorted, as the
  audio analysis returns them, and at least two lanes in the simple generators: in
  every returned beatmap in which no time value is carried by more than two notes, any
  two notes with the same time are on different lanes.
\<close>

theorem same_time_distinct_lanes_up_to_pairs:
  assumes "sorted_wrt (<) beat_times" and "sorted onset_times"
    and "at_most_two_per_time ns"
  shows "(generate_stream_map time_to_frames beat_times onset_times rms lanes
            stream_subdivision min_stream_duration_beats chord_chance g = Inr ns
          \<longrightarrow> same_time_distinct_lanes ns)
       \<and> (2 \<le> lanes
            \<and> generate_smart_beatmap time_to_frames onset_times rms difficulty lanes g = Inr ns
          \<longrightarrow> same_time_distinct_lanes ns)
       \<and> (2 \<le> (case cfg_lanes cfg of None \<Rightarrow> 4 | Some l \<Rightarrow> l)
            \<and> generate_configurable_beatmap time_to_frames onset_times rms cfg g = Inr ns
          \<longrightarrow> same_time_distinct_lanes ns)"
proof (intro conjI impI; (elim conjE)?)
  assume gen: "generate_stream_map time_to_frames beat_times onset_times rms lanes
            stream_subdivision min_stream_duration_beats chord_chance g = Inr ns"
  have "sorted beat_times"
    using assms(1) by (rule sorted_wrt_mono_rel [rotated]) simp
  then have "sorted (map time ns)"
    using gen by (rule generate_stream_map_sorted)
  then show "same_time_distinct_lanes ns"
    using assms(3) generate_stream_map_successively [OF gen assms(3)]
    by (rule same_time_from_adjacent)
next
  assume l: "2 \<le> lanes"
    and "generate_smart_beatmap time_to_frames onset_times rms difficulty lanes g = Inr ns"
  then obtain kept where a: "assign_lanes lanes kept (-1) g [] = Inr ns"
    and "kept = [] \<and> onset_times = []
         \<or> filter_onsets time_to_frames rms onset_times difficulty = Inr kept"
    by (elim generate_smart_beatmap_cases)
  then have "sorted kept"
    using filter_onsets_sorted [OF assms(2)] by auto
  then have "sorted (map time ns)"
    using a by (rule assign_lanes_sorted)
  then show "same_time_distinct_lanes ns"
    using assms(3) assign_lanes_successively [OF l a] by (rule same_time_from_adjacent)
next
  assume l: "2 \<le> (case cfg_lanes cfg of None \<Rightarrow> 4 | Some l \<Rightarrow> l)"
    and "generate_configurable_beatmap time_to_frames onset_times rms cfg g = Inr ns"
  then obtain kept where
    a: "assign_lanes (case cfg_lanes cfg of None \<Rightarrow> 4 | Some l \<Rightarrow> l) kept (-1) g [] = Inr ns"
    and "kept = onset_times \<or> filter_onsets time_to_frames rms onset_times
           (case cfg_difficulty cfg of None \<Rightarrow> 1 | Some d \<Rightarrow> d) = Inr kept"
    by (elim generate_configurable_beatmap_cases)
  then have "sorted kept"
    using filter_onsets_sorted [OF assms(2)] assms(2) by auto
  then have "sorted (map time ns)"
    using a by (rule assign_lanes_sorted)
  then show "same_time_distinct_lanes ns"
    using assms(3) assign_lanes_successively [OF l a] by (rule same_time_from_adjacent)
qed

theorem same_time_distinct_lanes_up_to_pairs_witness:
  "sorted_wrt (<) [0, 1/2, 1, 3/2 :: real] \<and> sorted [6/5 :: real]
   \<and> at_most_two_per_time
         [\<lparr>time = 0, lane = 0\<rparr>, \<lparr>time = 0, lane = 3\<rparr>, \<lparr>time = 250, lane = 2\<rparr>,
          \<lparr>time = 500, lane = 1\<rparr>, \<lparr>time = 500, lane = 2\<rparr>, \<lparr>time = 750, lane = 3\<rparr>,
          \<lparr>time = 1200, lane = 2\<rparr>, \<lparr>time = 1200, lane = 0\<rparr>]
   \<and> generate_stream_map (librosa_time_to_frames 2 1) [0, 1/2, 1, 3/2] [6/5] [1, 1, 0, 0]
         4 2 2 (1/4) rng_chords
       = Inr [\<lparr>time = 0, lane = 0\<rparr>, \<lparr>time = 0, lane = 3\<rparr>, \<lparr>time = 250, lane = 2\<rparr>,
            \<lparr>time = 500, lane = 1\<rparr>, \<lparr>time = 500, lane = 2\<rparr>, \<lparr>time = 750, lane = 3\<rparr>,
            \<lparr>time = 1200, lane = 2\<rparr>, \<lparr>time = 1200, lane = 0\<rparr>]
   \<and> same_time_distinct_lanes
         [\<lparr>time = 0, lane = 0\<rparr>, \<lparr>time = 0, lane = 3\<rparr>, \<lparr>time = 250, lane = 2\<rparr>,
          \<lparr>time = 500, lane = 1\<rparr>, \<lparr>time = 500, lane = 2\<rparr>, \<lparr>time = 750, lane = 3\<rparr>,
          \<lparr>time = 1200, lane = 2\<rparr>, \<lparr>time = 1200, lane = 0\<rparr>]
   \<and> sorted [101/10000, 103/10000, 1/2 :: real] \<and> (2::int) \<le> 2
   \<and> at_most_two_per_time
         [\<lparr>time = 10, lane = 0\<rparr>, \<lparr>time = 10, lane = 1\<rparr>, \<lparr>time = 500, lane = 0\<rparr>]
   \<and> generate_smart_beatmap (librosa_time_to_frames 1 1) [101/10000, 103/10000, 1/2] [1] (1/2) 2
         rng_first
       = Inr [\<lparr>time = 10, lane = 0\<rparr>, \<lparr>time = 10, lane = 1\<rparr>, \<lparr>time = 500, lane = 0\<rparr>]
   \<and> generate_configurable_beatmap (librosa_time_to_frames 1 1) [101/10000, 103/10000, 1/2] [1]
         \<lparr>cfg_difficulty = None, cfg_lanes = Some 2, cfg_mode = None\<rparr> rng_first
       = Inr [\<lparr>time = 10, lane = 0\<rparr>, \<lparr>time = 10, lane = 1\<rparr>, \<lparr>time = 500, lane = 0\<rparr>]
   \<and> same_time_distinct_lanes
         [\<lparr>time = 10, lane = 0\<rparr>, \<lparr>time = 10, lane = 1\<rparr>, \<lparr>time = 500, lane = 0\<rparr>]"
proof -
  have two_expert: "at_most_two_per_time
         [\<lparr>time = 0, lane = 0\<rparr>, \<lparr>time = 0, lane = 3\<rparr>, \<lparr>time = 250, lane = 2\<rparr>,
          \<lparr>time = 500, lane = 1\<rparr>, \<lparr>time = 500, lane = 2\<rparr>, \<lparr>time = 750, lane = 3\<rparr>,
          \<lparr>time = 1200, lane = 2\<rparr>, \<lparr>time = 1200, lane = 0\<rparr>]"
    by (simp add: at_most_two_per_time_def)
  have two_simple: "at_most_two_per_time
         [\<lparr>time = 10, lane = 0\<rparr>, \<lparr>time = 10, lane = 1\<rparr>, \<lparr>time = 500, lane = 0\<rparr>]"
    by (simp add: at_most_two_per_time_def)
  have beats: "sorted_wrt (<) [0, 1/2, 1, 3/2 :: real]"
    and onsets: "sorted [6/5 :: real]" "sorted [101/10000, 103/10000, 1/2 :: real]"
    by simp_all
  have expert: "same_time_distinct_lanes
         [\<lparr>time = 0, lane = 0\<rparr>, \<lparr>time = 0, lane = 3\<rparr>, \<lparr>time = 250, lane = 2\<rparr>,
          \<lparr>time = 500, lane = 1\<rparr>, \<lparr>time = 500, lane = 2\<rparr>, \<lparr>time = 750, lane = 3\<rparr>,
          \<lparr>time = 1200, lane = 2\<rparr>, \<lparr>time = 1200, lane = 0\<rparr>]"
    using same_time_distinct_lanes_up_to_pairs [OF beats onsets(1) two_expert,
        THEN conjunct1, rule_format, OF example_stream_map] .
  have smart: "(2::int) \<le> 2
      \<and> generate_smart_beatmap (librosa_time_to_frames 1 1) [101/10000, 103/10000, 1/2] [1]
          (1/2) 2 rng_first
        = Inr [\<lparr>time = 10, lane = 0\<rparr>, \<lparr>time = 10, lane = 1\<rparr>, \<lparr>time = 500, lane = 0\<rparr>]"
    by (simp add: example_pair_smart)
  have simple: "same_time_distinct_lanes
         [\<lparr>time = 10, lane = 0\<rparr>, \<lparr>time = 10, lane = 1\<rparr>, \<lparr>time = 500, lane = 0\<rparr>]"
    using same_time_distinct_lanes_up_to_pairs [OF beats onsets(2) two_simple,
        THEN conjunct2, THEN conjunct1, rule_format, OF smart] .
  show ?thesis
    using beats onsets two_expert two_simple expert simple
    by (simp add: example_stream_map example_pair_smart example_pair_configurable)
qed

subsection \<open>Lane range\<close>

lemma assign_lanes_in_range:
  assumes "assign_lanes lanes ts (-1) g [] = Inr out"
  shows "\<forall>n \<in> set out. 0 \<le> lane n \<and> lane n < lanes"
proof -
  from assign_lanes_shape [OF assms] obtain ls where
    "length ls = length ts" "out = lane_notes ts ls" "set ls \<subseteq> {0..<lanes}"
    by auto
  then have "set (map lane out) \<subseteq> {0..<lanes}"
    by (simp add: lane_lane_notes)
  then show ?thesis
    by auto
qed

text \<open>
  Claim C5. The primary lanes of the expert generator come from the fixed four-lane
  patterns and not from \<open>lanes\<close>: with \<open>lanes = 2\<close> the second note is on lane 2.
\<close>

theorem expert_lane_out_of_range:
  "generate_stream_map (librosa_time_to_frames 2 1) [0, 1/2, 1] [] [1] 2 4 4 (1/4) rng_first
     = Inr [\<lparr>time = 0, lane = 0\<rparr>, \<lparr>time = 500, lane = 2\<rparr>]"
  by (simp add: generate_stream_map_def stream_timestamps_def np_percentile_def
      percentile_linear_def librosa_time_to_frames_def np_index_def find_stream_sections_def
      note_loop_concat interval_notes_def place_pattern_notes_def random_choice_def
      random_random_def rng_first_def patterns_def py_int_def upt_rec Let_def)

subsection \<open>Configuration\<close>

lemma place_notes_succeeds:
  assumes "i + length ts \<le> length fl"
  shows "\<exists>out. place_notes lanes cc pat fl ts i p g acc = Inr out"
  using assms
proof (induction ts arbitrary: i p g acc)
  case Nil
  then show ?case by simp
next
  case (Cons t ts)
  then have i: "i < length fl" and rest: "Suc i + length ts \<le> length fl"
    by simp_all
  let ?p = "\<lparr>time = py_int (t * 1000), lane = pat ! (p mod length pat)\<rparr>"
  let ?possible = "filter (\<lambda>l. l \<noteq> lane ?p) (py_range lanes)"
  obtain u g1 where rr: "random_random g = (u, g1)"
    by (cases "random_random g")
  show ?case
  proof (cases "fl ! i \<and> u < cc \<and> ?possible \<noteq> []")
    case True
    then obtain l g2 where "random_choice g1 ?possible = Inr (l, g2)"
      by (simp add: random_choice_def)
    with True i rr Cons.IH [OF rest, of "Suc p" g2] show ?thesis
      by (simp add: Let_def)
  next
    case False
    with i rr Cons.IH [OF rest, of "Suc p" g1] Cons.IH [OF rest, of "Suc p" g] show ?thesis
      by (auto simp: Let_def)
  qed
qed

lemma place_pattern_notes_succeeds:
  assumes "length ts \<le> length fl"
  shows "\<exists>out. place_pattern_notes lanes cc fl ts g = Inr out"
  using place_notes_succeeds [of 0 ts fl] assms
  by (simp add: place_pattern_notes_def random_choice_def patterns_def)

lemma stream_timestamps_succeeds_iff:
  "(\<exists>x. stream_timestamps ttf bt ot rms S D = Inr x)
     \<longleftrightarrow> (\<exists>flags. classify_beats ttf rms (percentile_linear rms 60) bt = Inr flags)"
  by (auto simp: stream_timestamps_def np_percentile_def Let_def split: sum.splits)

lemma generate_stream_map_succeeds_iff:
  "(\<exists>out. generate_stream_map ttf bt ot rms lanes S D cc g = Inr out)
     \<longleftrightarrow> (\<exists>flags. classify_beats ttf rms (percentile_linear rms 60) bt = Inr flags)"
proof
  assume "\<exists>out. generate_stream_map ttf bt ot rms lanes S D cc g = Inr out"
  then have "\<exists>x. stream_timestamps ttf bt ot rms S D = Inr x"
    by (auto simp: generate_stream_map_def split: sum.splits)
  then show "\<exists>flags. classify_beats ttf rms (percentile_linear rms 60) bt = Inr flags"
    by (simp only: stream_timestamps_succeeds_iff)
next
  assume "\<exists>flags. classify_beats ttf rms (percentile_linear rms 60) bt = Inr flags"
  then have "\<exists>x. stream_timestamps ttf bt ot rms S D = Inr x"
    by (simp only: stream_timestamps_succeeds_iff)
  then obtain ts fl where st: "stream_timestamps ttf bt ot rms S D = Inr (ts, fl)"
    by auto
  from st obtain ss where "note_loop bt ss ot S 0 ([], []) = (ts, fl)"
    by (auto simp: stream_timestamps_def Let_def split: sum.splits)
  then have "length ts \<le> length fl"
    using note_loop_lengths [of bt ss ot S] by simp
  from place_pattern_notes_succeeds [OF this] obtain out where
    "place_pattern_notes lanes cc fl ts g = Inr out"
    by blast
  with st show "\<exists>out. generate_stream_map ttf bt ot rms lanes S D cc g = Inr out"
    by (simp add: generate_stream_map_def)
qed

lemma assign_lanes_no_lanes_eq:
  assumes "lanes \<le> 0"
  shows "assign_lanes lanes ts (-1) g [] = (if ts = [] then Inr [] else Inl IndexError)"
  using assms by (cases ts) (simp_all add: py_range_def random_choice_def)

text \<open>
  Claim C9 does not hold as stated. With \<open>lanes = 0\<close> and \<open>stream_subdivision = 0\<close>
  the expert generator raises nothing: it returns a beatmap in which the two stream
  intervals have no note and the remaining note is on lane 0.
\<close>

theorem no_fail_fast_counterexample:
  "generate_stream_map (librosa_time_to_frames 2 1) [0, 1/2, 1, 3/2] [6/5] [1, 1, 0, 0]
       0 0 2 (1/4) rng_chords
     = Inr [\<lparr>time = 1200, lane = 0\<rparr>]"
  by (simp add: generate_stream_map_def stream_timestamps_def np_percentile_def
      percentile_linear_def librosa_time_to_frames_def np_index_def find_stream_sections_def
      note_loop_concat interval_notes_def place_pattern_notes_def random_choice_def
      random_random_def rng_chords_def patterns_def py_int_def py_range_def upt_rec Let_def)

text \<open>
  Claim C9, amended. No generator checks its configuration. The expert generator
  returns a beatmap for every value of \<open>lanes\<close> and \<open>stream_subdivision\<close>; it fails
  only when reading the RMS curve at a beat frame fails. With \<open>lanes \<le> 0\<close> the
  simple generators raise IndexError, from the random choice in an empty lane list,
  when there is a note to place, and return an empty note list when there is none.
\<close>

theorem configuration_not_validated:
  "((\<exists>ns. generate_stream_map time_to_frames beat_times onset_times rms lanes
             stream_subdivision min_stream_duration_beats chord_chance g = Inr ns)
      \<longleftrightarrow> (\<exists>flags. classify_beats time_to_frames rms (percentile_linear rms 60) beat_times
                     = Inr flags))
   \<and> (lanes \<le> 0 \<longrightarrow>
        generate_smart_beatmap time_to_frames onset_times rms difficulty lanes g
          = (case (if 0 < length onset_times
                   then filter_onsets time_to_frames rms onset_times difficulty
                   else Inr []) of
               Inl e \<Rightarrow> Inl e
             | Inr kept \<Rightarrow> if kept = [] then Inr [] else Inl IndexError))
   \<and> (lanes \<le> 0 \<longrightarrow>
        generate_configurable_beatmap time_to_frames onset_times rms
            \<lparr>cfg_difficulty = Some difficulty, cfg_lanes = Some lanes, cfg_mode = Some mode\<rparr> g
          = (case (if mode = ''smart'' \<and> 0 < length onset_times
                   then filter_onsets time_to_frames rms onset_times difficulty
                   else Inr onset_times) of
               Inl e \<Rightarrow> Inl e
             | Inr kept \<Rightarrow> if kept = [] then Inr [] else Inl IndexError))"
  by (intro conjI impI generate_stream_map_succeeds_iff)
    (simp_all add: generate_smart_beatmap_def generate_configurable_beatmap_def
      assign_lanes_no_lanes_eq split: sum.splits)

theorem configuration_not_validated_witness:
  "(0::int) \<le> 0
   \<and> (\<exists>ns. generate_stream_map (librosa_time_to_frames 2 1) [0, 1/2, 1, 3/2] [6/5] [1, 1, 0, 0]
             0 0 2 (1/4) rng_chords = Inr ns)
   \<and> (\<exists>flags. classify_beats (librosa_time_to_frames 2 1) [1, 1, 0, 0]
                 (percentile_linear [1, 1, 0, 0] 60) [0, 1/2, 1, 3/2] = Inr flags)
   \<and> generate_smart_beatmap (librosa_time_to_frames 1 1) [1/2, 3/2, 5/2] [1, 3, 2] (1/2) 0
        rng_first = Inl IndexError
   \<and> generate_configurable_beatmap (librosa_time_to_frames 1 1) [1/2, 3/2, 5/2] [1, 3, 2]
        \<lparr>cfg_difficulty = Some (1/2), cfg_lanes = Some 0, cfg_mode = Some ''chaotic''\<rparr> rng_first
        = Inl IndexError"
proof -
  have "classify_beats (librosa_time_to_frames 2 1) [1, 1, 0, 0]
          (percentile_linear [1, 1, 0, 0] 60) [0, 1/2, 1, 3/2] = Inr [True, True, False, False]"
    by (simp add: percentile_linear_def librosa_time_to_frames_def np_index_def Let_def)
  moreover have "filter_onsets (librosa_time_to_frames 1 1) [1, 3, 2] [1/2, 3/2, 5/2] (1/2)
                   = Inr [3/2, 5/2]"
    by (simp add: filter_onsets_def np_index_def np_percentile_def percentile_linear_def
        librosa_time_to_frames_def Let_def)
  ultimately show ?thesis
    using configuration_not_validated [where lanes = 0
        and time_to_frames = "librosa_time_to_frames 2 1" and beat_times = "[0, 1/2, 1, 3/2]"
        and onset_times = "[6/5]" and rms = "[1, 1, 0, 0]" and stream_subdivision = 0
        and min_stream_duration_beats = 2 and chord_chance = "1/4" and g = rng_chords]
      configuration_not_validated [where lanes = 0
        and time_to_frames = "librosa_time_to_frames 1 1"
        and onset_times = "[1/2, 3/2, 5/2]" and rms = "[1, 3, 2]" and difficulty = "1/2"
        and mode = "''chaotic''" and g = rng_first]
    by simp
qed

end
